theory Spec2Isabelle
  imports Main "HOL-Library.Sublist"
begin

section \<open>Strings of the materializer\<close>

text \<open>
  The file manager (\<^verbatim>\<open>dist/utils/fileManager\<close>) works on JavaScript strings. A
  \<^typ>\<open>string\<close> here is a sequence of code units below 256 (the Latin-1 range), one
  \<^typ>\<open>char\<close> per code unit. In that range the regular-expression class \<^verbatim>\<open>\s\<close> and
  \<^verbatim>\<open>String.prototype.trim\<close> agree on tab, line feed, vertical tab, form feed, carriage
  return, space and no-break space; \<^verbatim>\<open>\w\<close> is \<^verbatim>\<open>[A-Za-z0-9_]\<close>; and the line
  terminators seen by a multi-line \<^verbatim>\<open>^\<close> are line feed and carriage return.
\<close>

abbreviation nl :: char where
  "nl \<equiv> CHR 0x0A"

definition is_space :: "char \<Rightarrow> bool" where
  "is_space c \<longleftrightarrow>
     c = CHR 0x09 \<or> c = CHR 0x0A \<or> c = CHR 0x0B \<or> c = CHR 0x0C \<or> c = CHR 0x0D \<or>
     c = CHR '' '' \<or> c = CHR 0xA0"

definition is_line_terminator :: "char \<Rightarrow> bool" where
  "is_line_terminator c \<longleftrightarrow> c = CHR 0x0A \<or> c = CHR 0x0D"

definition is_upper :: "char \<Rightarrow> bool" where
  "is_upper c \<longleftrightarrow> (65::nat) \<le> of_char c \<and> of_char c \<le> (90::nat)"

definition is_lower :: "char \<Rightarrow> bool" where
  "is_lower c \<longleftrightarrow> (97::nat) \<le> of_char c \<and> of_char c \<le> (122::nat)"

definition is_digit :: "char \<Rightarrow> bool" where
  "is_digit c \<longleftrightarrow> (48::nat) \<le> of_char c \<and> of_char c \<le> (57::nat)"

definition is_word :: "char \<Rightarrow> bool" where
  "is_word c \<longleftrightarrow> is_lower c \<or> is_upper c \<or> is_digit c \<or> c = CHR ''_''"

text \<open>\<^verbatim>\<open>String.prototype.trim\<close>: white space is removed from both ends.\<close>

definition trim :: "string \<Rightarrow> string" where
  "trim s = rev (dropWhile is_space (rev (dropWhile is_space s)))"

text \<open>\<^verbatim>\<open>String.prototype.includes\<close>: the pattern occurs somewhere in the text.\<close>

fun str_includes :: "string \<Rightarrow> string \<Rightarrow> bool" where
  "str_includes [] pat = (pat = [])"
| "str_includes (c # cs) pat = (prefix pat (c # cs) \<or> str_includes cs pat)"

text \<open>Decimal rendering of a number inside a template literal.\<close>

definition digit_char :: "nat \<Rightarrow> char" where
  "digit_char d =
     (if d = 0 then CHR ''0'' else if d = 1 then CHR ''1'' else if d = 2 then CHR ''2''
      else if d = 3 then CHR ''3'' else if d = 4 then CHR ''4'' else if d = 5 then CHR ''5''
      else if d = 6 then CHR ''6'' else if d = 7 then CHR ''7'' else if d = 8 then CHR ''8''
      else CHR ''9'')"

fun string_of_nat :: "nat \<Rightarrow> string" where
  "string_of_nat n =
     (if n < 10 then [digit_char n] else string_of_nat (n div 10) @ [digit_char (n mod 10)])"

declare string_of_nat.simps [simp del]

section \<open>Folder names\<close>

text \<open>
  \<^verbatim>\<open>sanitizeFolderName(task)\<close>:
  \<^verbatim>\<open>task.replace(/[^a-zA-Z0-9\s\-_]/g, "").trim().replace(/\s+/g, "_").substring(0, 50)\<close>,
  and \<^verbatim>\<open>"coding_task"\<close> when that is empty.
\<close>

definition folder_char :: "char \<Rightarrow> bool" where
  "folder_char c \<longleftrightarrow>
     is_lower c \<or> is_upper c \<or> is_digit c \<or> is_space c \<or> c = CHR ''-'' \<or> c = CHR ''_''"

text \<open>\<^verbatim>\<open>replace(/\s+/g, "_")\<close>: every maximal run of white space becomes one underscore.\<close>

function collapse_spaces :: "string \<Rightarrow> string" where
  "collapse_spaces [] = []"
| "collapse_spaces (c # cs) =
     (if is_space c then CHR ''_'' # collapse_spaces (dropWhile is_space cs)
      else c # collapse_spaces cs)"
  by pat_completeness auto
termination
  by (relation "measure length") (auto simp: length_dropWhile_le less_Suc_eq_le)

definition sanitizeFolderName :: "string \<Rightarrow> string" where
  "sanitizeFolderName task =
     (let sanitized = take 50 (collapse_spaces (trim (filter folder_char task)))
      in if sanitized = [] then ''coding_task'' else sanitized)"

section \<open>Regular expressions\<close>

text \<open>
  The source scans text with JavaScript regular expressions. Each one is written below
  with the same structure as in the source, from backtracking matchers in
  continuation-passing style: a matcher takes the continuation for what follows it and
  the text at the current position, and answers \<open>None\<close> when no way of matching leads
  the continuation to succeed. A greedy quantifier tries one more repetition before it
  tries the continuation, a lazy one the other way round, which is the order in which a
  backtracking engine explores the alternatives; the first success is the match.
\<close>

type_synonym 'a matcher = "string \<Rightarrow> 'a option"

text \<open>A literal piece of text.\<close>

definition lit :: "string \<Rightarrow> 'a matcher \<Rightarrow> 'a matcher" where
  "lit p k s = (if prefix p s then k (drop (length p) s) else None)"

text \<open>One character of a class.\<close>

fun one :: "(char \<Rightarrow> bool) \<Rightarrow> 'a matcher \<Rightarrow> 'a matcher" where
  "one C k [] = None"
| "one C k (c # cs) = (if C c then k cs else None)"

text \<open>\<^verbatim>\<open>C*\<close>, greedy; the continuation receives the matched text.\<close>

fun star :: "(char \<Rightarrow> bool) \<Rightarrow> (string \<Rightarrow> 'a matcher) \<Rightarrow> 'a matcher" where
  "star C k [] = k [] []"
| "star C k (c # cs) =
     (if C c then
        (case star C (\<lambda>g. k (c # g)) cs of Some r \<Rightarrow> Some r | None \<Rightarrow> k [] (c # cs))
      else k [] (c # cs))"

text \<open>\<^verbatim>\<open>C+\<close>, greedy.\<close>

fun plus :: "(char \<Rightarrow> bool) \<Rightarrow> (string \<Rightarrow> 'a matcher) \<Rightarrow> 'a matcher" where
  "plus C k [] = None"
| "plus C k (c # cs) = (if C c then star C (\<lambda>g. k (c # g)) cs else None)"

text \<open>\<^verbatim>\<open>[\s\S]*?\<close>: any characters, lazy.\<close>

fun lazy_any :: "(string \<Rightarrow> 'a matcher) \<Rightarrow> 'a matcher" where
  "lazy_any k [] = k [] []"
| "lazy_any k (c # cs) =
     (case k [] (c # cs) of Some r \<Rightarrow> Some r | None \<Rightarrow> lazy_any (\<lambda>g. k (c # g)) cs)"

text \<open>
  \<^verbatim>\<open>(...)?\<close>, greedy: the group is tried first; when it takes no part in the match its
  capture is undefined.
\<close>

definition opt :: "((string \<Rightarrow> 'a matcher) \<Rightarrow> 'a matcher) \<Rightarrow> (string option \<Rightarrow> 'a matcher) \<Rightarrow>
    'a matcher" where
  "opt grp k s = (case grp (\<lambda>g. k (Some g)) s of Some r \<Rightarrow> Some r | None \<Rightarrow> k None s)"

text \<open>The end of the pattern: the captures and the text left after the match.\<close>

definition accept :: "'a \<Rightarrow> ('a \<times> string) matcher" where
  "accept x s = Some (x, s)"

text \<open>An unanchored pattern is tried at every position from the left.\<close>

fun search :: "'a matcher \<Rightarrow> 'a matcher" where
  "search m [] = m []"
| "search m (c # cs) = (case m (c # cs) of Some r \<Rightarrow> Some r | None \<Rightarrow> search m cs)"

text \<open>
  A pattern that begins with \<^verbatim>\<open>^\<close> under the \<^verbatim>\<open>m\<close> flag is tried at every
  position that starts a line: the start of the text and each position after a line
  terminator. The flag \<open>ls\<close> says whether the current position is one.
\<close>

fun search_lines :: "'a matcher \<Rightarrow> bool \<Rightarrow> 'a matcher" where
  "search_lines m ls [] = (if ls then m [] else None)"
| "search_lines m ls (c # cs) =
     (case (if ls then m (c # cs) else None) of
        Some r \<Rightarrow> Some r
      | None \<Rightarrow> search_lines m (is_line_terminator c) cs)"

definition matches :: "'a option \<Rightarrow> bool" where
  "matches r \<longleftrightarrow> r \<noteq> None"

section \<open>Extension resolver\<close>

text \<open>ASCII and Latin-1 capitals are the code units below 256 that \<^verbatim>\<open>toLowerCase\<close> changes.\<close>

definition toLowerCase_char :: "char \<Rightarrow> char" where
  "toLowerCase_char c =
     (let n = (of_char c :: nat)
      in if (65 \<le> n \<and> n \<le> 90) \<or> (192 \<le> n \<and> n \<le> 222 \<and> n \<noteq> 215) then char_of (n + 32) else c)"

definition toLowerCase :: "string \<Rightarrow> string" where
  "toLowerCase s = map toLowerCase_char s"

definition languageMap :: "(string \<times> string) list" where
  "languageMap =
     [(''javascript'', ''.js''), (''js'', ''.js''), (''typescript'', ''.ts''), (''ts'', ''.ts''),
      (''python'', ''.py''), (''py'', ''.py''), (''java'', ''.java''), (''html'', ''.html''),
      (''css'', ''.css''), (''json'', ''.json''), (''xml'', ''.xml''), (''yaml'', ''.yaml''),
      (''yml'', ''.yml''), (''markdown'', ''.md''), (''md'', ''.md''), (''sql'', ''.sql''),
      (''sh'', ''.sh''), (''bash'', ''.sh''), (''go'', ''.go''), (''rust'', ''.rs''),
      (''cpp'', ''.cpp''), (''c'', ''.c''), (''php'', ''.php''), (''ruby'', ''.rb''),
      (''swift'', ''.swift''), (''kotlin'', ''.kt'')]"

text \<open>
  \<^verbatim>\<open>languageMap\<close> is an object literal, so a lookup also finds what it inherits from
  \<^verbatim>\<open>Object.prototype\<close>. Two inherited keys are their own lower case and consist of
  word characters: \<^verbatim>\<open>constructor\<close> and \<^verbatim>\<open>__proto__\<close>. Both values are truthy, and the
  caller interpolates the result into a template literal; the strings below are what
  Node renders there.
\<close>

definition inheritedMap :: "(string \<times> string) list" where
  "inheritedMap =
     [(''constructor'', ''function Object() { [native code] }''),
      (''__proto__'', ''[object Object]'')]"

definition getExtensionFromLanguage :: "string \<Rightarrow> string" where
  "getExtensionFromLanguage language =
     (case map_of (languageMap @ inheritedMap) (toLowerCase language) of
        Some ext \<Rightarrow> ext
      | None \<Rightarrow> ''.txt'')"

text \<open>\<^verbatim>\<open>/[.#][\w-]+\s*{/\<close>\<close>

definition css_rule :: "unit matcher" where
  "css_rule =
     search (one (\<lambda>c. c = CHR ''.'' \<or> c = CHR ''#'')
       (plus (\<lambda>c. is_word c \<or> c = CHR ''-'') (\<lambda>_.
         star is_space (\<lambda>_. lit ''{'' (\<lambda>_. Some ())))))"

text \<open>\<^verbatim>\<open>/^[\s]*<[\w]+/\<close> (no \<^verbatim>\<open>m\<close> flag: only the start of the text)\<close>

definition leading_tag :: "unit matcher" where
  "leading_tag = star is_space (\<lambda>_. lit ''<'' (plus is_word (\<lambda>_ _. Some ())))"

definition inferExtensionFromContent :: "string \<Rightarrow> string" where
  "inferExtensionFromContent content =
     (if str_includes content ''<!DOCTYPE'' \<or> str_includes content ''<html'' then ''.html''
      else if (str_includes content ''@media'' \<or> str_includes content ''{'') \<and>
              matches (css_rule content) then ''.css''
      else if str_includes content ''import '' \<and> str_includes content ''from '' then ''.js''
      else if str_includes content ''require('' then ''.js''
      else if (str_includes content ''def '' \<or> str_includes content ''import '') \<and>
              str_includes content ''print('' \<and> \<not> str_includes content ''console.'' then ''.py''
      else if str_includes content ''package '' \<or> str_includes content ''public class''
        then ''.java''
      else if str_includes content ''<?php'' then ''.php''
      else if matches (leading_tag content) then ''.html''
      else ''.js'')"

section \<open>Matches consume text\<close>

text \<open>
  Scanning resumes after each match, and it ends because what a match leaves is shorter
  than the text it started from.
\<close>

definition shrinking :: "('a \<times> string) matcher \<Rightarrow> bool" where
  "shrinking k \<longleftrightarrow> (\<forall>s x r. k s = Some (x, r) \<longrightarrow> length r \<le> length s)"

lemma shrinkingD: "shrinking k \<Longrightarrow> k s = Some (x, r) \<Longrightarrow> length r \<le> length s"
  by (simp add: shrinking_def)

lemma shrinking_accept: "shrinking (accept x)"
  by (simp add: shrinking_def accept_def)

lemma lit_consumes:
  assumes "shrinking k" "lit p k s = Some (x, r)"
  shows "length r + length p \<le> length s"
proof -
  from assms(2) have p: "prefix p s" and k: "k (drop (length p) s) = Some (x, r)"
    by (auto simp: lit_def split: if_splits)
  from shrinkingD [OF assms(1) k] have "length r \<le> length s - length p"
    by simp
  moreover from p have "length p \<le> length s"
    by (rule prefix_length_le)
  ultimately show ?thesis by simp
qed

lemma shrinking_lit: "shrinking k \<Longrightarrow> shrinking (lit p k)"
  unfolding shrinking_def [of "lit p k"] using lit_consumes [of k p] by fastforce

lemma star_consumes:
  "(\<And>g. shrinking (k g)) \<Longrightarrow> star C k s = Some (x, r) \<Longrightarrow> length r \<le> length s"
proof (induction s arbitrary: k)
  case Nil
  then have "k [] [] = Some (x, r)" by simp
  with Nil.prems(1) [of "[]"] show ?case by (rule shrinkingD)
next
  case (Cons c cs)
  show ?case
  proof (cases "C c \<and> star C (\<lambda>g. k (c # g)) cs \<noteq> None")
    case True
    with Cons.prems(2) have "star C (\<lambda>g. k (c # g)) cs = Some (x, r)"
      by auto
    with Cons.IH [of "\<lambda>g. k (c # g)"] Cons.prems(1) show ?thesis
      by simp
  next
    case False
    with Cons.prems(2) have "k [] (c # cs) = Some (x, r)"
      by (auto split: if_splits option.splits)
    with Cons.prems(1) [of "[]"] have "length r \<le> length (c # cs)"
      by (rule shrinkingD)
    then show ?thesis .
  qed
qed

lemma shrinking_star: "(\<And>g. shrinking (k g)) \<Longrightarrow> shrinking (star C k)"
  unfolding shrinking_def [of "star C k"] using star_consumes [of k C] by blast

lemma plus_consumes:
  assumes "\<And>g. shrinking (k g)" "plus C k s = Some (x, r)"
  shows "length r < length s"
proof (cases s)
  case Nil
  with assms(2) show ?thesis by simp
next
  case (Cons c cs)
  with assms(2) have "star C (\<lambda>g. k (c # g)) cs = Some (x, r)"
    by (simp split: if_splits)
  then have "length r \<le> length cs"
    using assms(1) by (intro star_consumes [of "\<lambda>g. k (c # g)"]) 
  with Cons show ?thesis by simp
qed

lemma shrinking_plus: "(\<And>g. shrinking (k g)) \<Longrightarrow> shrinking (plus C k)"
  unfolding shrinking_def [of "plus C k"] using plus_consumes [of k C] by (meson less_imp_le)

lemma lazy_any_consumes:
  "(\<And>g. shrinking (k g)) \<Longrightarrow> lazy_any k s = Some (x, r) \<Longrightarrow> length r \<le> length s"
proof (induction s arbitrary: k)
  case Nil
  then have "k [] [] = Some (x, r)" by simp
  with Nil.prems(1) [of "[]"] show ?case by (rule shrinkingD)
next
  case (Cons c cs)
  show ?case
  proof (cases "k [] (c # cs)")
    case None
    with Cons.prems(2) have "lazy_any (\<lambda>g. k (c # g)) cs = Some (x, r)"
      by simp
    with Cons.IH [of "\<lambda>g. k (c # g)"] Cons.prems(1) show ?thesis
      by simp
  next
    case (Some a)
    with Cons.prems(2) have "k [] (c # cs) = Some (x, r)"
      by simp
    with Cons.prems(1) [of "[]"] have "length r \<le> length (c # cs)"
      by (rule shrinkingD)
    then show ?thesis .
  qed
qed

lemma shrinking_lazy_any: "(\<And>g. shrinking (k g)) \<Longrightarrow> shrinking (lazy_any k)"
  unfolding shrinking_def [of "lazy_any k"] using lazy_any_consumes [of k] by blast

lemma shrinking_opt:
  assumes "shrinking (grp (\<lambda>g. k (Some g)))" "shrinking (k None)"
  shows "shrinking (opt grp k)"
  unfolding shrinking_def [of "opt grp k"]
proof (intro allI impI)
  fix s x r
  assume "opt grp k s = Some (x, r)"
  then have "grp (\<lambda>g. k (Some g)) s = Some (x, r) \<or> k None s = Some (x, r)"
    by (auto simp: opt_def split: option.splits)
  with assms show "length r \<le> length s"
    by (auto dest: shrinkingD)
qed

lemma search_consumes:
  "(\<And>t x r. m t = Some (x, r) \<Longrightarrow> length r < length t) \<Longrightarrow>
   search m s = Some (x, r) \<Longrightarrow> length r < length s"
proof (induction s)
  case Nil
  then show ?case by fastforce
next
  case (Cons c cs)
  show ?case
  proof (cases "m (c # cs)")
    case None
    with Cons.prems(2) have "search m cs = Some (x, r)"
      by simp
    with Cons.IH Cons.prems(1) have "length r < length cs"
      by blast
    then show ?thesis by simp
  next
    case (Some a)
    with Cons.prems(2) have "m (c # cs) = Some (x, r)"
      by simp
    with Cons.prems(1) show ?thesis by blast
  qed
qed

section \<open>Block extractor and path resolver\<close>

text \<open>
  \<^verbatim>\<open>/```(\w+)?(?::([^\n]+))?\n([\s\S]*?)```/g\<close>; the result holds the three captures and
  the text after the match, from which the next \<^verbatim>\<open>exec\<close> resumes.
\<close>

definition codeBlockPattern :: "((string option \<times> string option \<times> string) \<times> string) matcher" where
  "codeBlockPattern =
     lit ''```'' (opt (plus is_word) (\<lambda>g1.
       opt (\<lambda>k. lit '':'' (plus (\<lambda>c. c \<noteq> nl) k)) (\<lambda>g2.
         lit [nl] (lazy_any (\<lambda>g3. lit ''```'' (accept (g1, g2, g3)))))))"

lemma codeBlockPattern_consumes:
  assumes "search codeBlockPattern s = Some (x, r)"
  shows "length r < length s"
proof (rule search_consumes [OF _ assms])
  fix t y q
  assume m: "codeBlockPattern t = Some (y, q)"
  have body: "shrinking (lit [nl] (lazy_any (\<lambda>g3. lit ''```'' (accept (g1, g2, g3)))))"
    for g1 g2 :: "string option"
    by (intro shrinking_lit shrinking_lazy_any shrinking_accept)
  have path: "shrinking (opt (\<lambda>k. lit '':'' (plus (\<lambda>c. c \<noteq> nl) k))
      (\<lambda>g2. lit [nl] (lazy_any (\<lambda>g3. lit ''```'' (accept (g1, g2, g3))))))"
    for g1 :: "string option"
    by (intro shrinking_opt shrinking_lit shrinking_plus body)
  have "shrinking (opt (plus is_word) (\<lambda>g1.
       opt (\<lambda>k. lit '':'' (plus (\<lambda>c. c \<noteq> nl) k)) (\<lambda>g2.
         lit [nl] (lazy_any (\<lambda>g3. lit ''```'' (accept (g1, g2, g3)))))))"
    by (intro shrinking_opt shrinking_plus path)
  from lit_consumes [OF this m [unfolded codeBlockPattern_def]]
  show "length q < length t" by simp
qed

text \<open>
  The four comment patterns, in the order of \<^verbatim>\<open>commentPatterns\<close>:
  \<^verbatim>\<open>/^\/\/\s*File:\s*([^\n]+)/m\<close>, \<^verbatim>\<open>/^#\s*File:\s*([^\n]+)/m\<close>,
  \<^verbatim>\<open>/^<!--\s*File:\s*([^\n]+)\s*-->/m\<close> and \<^verbatim>\<open>/\/\*\s*File:\s*([^*]+)\*\//m\<close>
  (the last has no \<^verbatim>\<open>^\<close>). Each answers its first capture.
\<close>

definition slashComment :: "string matcher" where
  "slashComment =
     lit ''//'' (star is_space (\<lambda>_. lit ''File:'' (star is_space (\<lambda>_.
       plus (\<lambda>c. c \<noteq> nl) (\<lambda>g _. Some g)))))"

definition hashComment :: "string matcher" where
  "hashComment =
     lit ''#'' (star is_space (\<lambda>_. lit ''File:'' (star is_space (\<lambda>_.
       plus (\<lambda>c. c \<noteq> nl) (\<lambda>g _. Some g)))))"

definition htmlComment :: "string matcher" where
  "htmlComment =
     lit ''<!--'' (star is_space (\<lambda>_. lit ''File:'' (star is_space (\<lambda>_.
       plus (\<lambda>c. c \<noteq> nl) (\<lambda>g. star is_space (\<lambda>_. lit ''-->'' (\<lambda>_. Some g)))))))"

definition blockComment :: "string matcher" where
  "blockComment =
     lit ''/*'' (star is_space (\<lambda>_. lit ''File:'' (star is_space (\<lambda>_.
       plus (\<lambda>c. c \<noteq> CHR ''*'') (\<lambda>g. lit ''*/'' (\<lambda>_. Some g))))))"

definition commentPatterns :: "string matcher list" where
  "commentPatterns =
     [search_lines slashComment True, search_lines hashComment True,
      search_lines htmlComment True, search blockComment]"

text \<open>
  The loop over \<^verbatim>\<open>commentPatterns\<close>: the first pattern with a match and a non-empty
  capture gives the path, trimmed, and ends the loop; the path stays empty otherwise.
\<close>

fun commentPath :: "string matcher list \<Rightarrow> string \<Rightarrow> string" where
  "commentPath [] actualContent = []"
| "commentPath (pattern # patterns) actualContent =
     (case pattern actualContent of
        Some g \<Rightarrow> if g \<noteq> [] then trim g else commentPath patterns actualContent
      | None \<Rightarrow> commentPath patterns actualContent)"

definition indexedName :: "nat \<Rightarrow> string \<Rightarrow> string" where
  "indexedName blockIndex ext =
     (if blockIndex = 0 then ''main'' @ ext else ''file'' @ string_of_nat (blockIndex + 1) @ ext)"

text \<open>\<^verbatim>\<open>filePath.replace(/^\.?\//, "")\<close>\<close>

definition leadingSlash :: "string matcher" where
  "leadingSlash = opt (\<lambda>k. lit ''.'' (k ''.'')) (\<lambda>_. lit ''/'' Some)"

definition stripLeadingSlash :: "string \<Rightarrow> string" where
  "stripLeadingSlash filePath =
     (case leadingSlash filePath of Some rest \<Rightarrow> rest | None \<Rightarrow> filePath)"

text \<open>The path of one block: the body of the \<^verbatim>\<open>while\<close> loop up to the normalisation.\<close>

definition resolvePath :: "string \<Rightarrow> string \<Rightarrow> string \<Rightarrow> nat \<Rightarrow> string" where
  "resolvePath language explicitPath actualContent blockIndex =
     (let filePath =
        (if explicitPath \<noteq> [] then explicitPath
         else if trim actualContent \<noteq> [] then commentPath commentPatterns actualContent
         else []);
      filePath =
        (if filePath = [] then
           (if language \<noteq> [] then indexedName blockIndex (getExtensionFromLanguage language)
            else indexedName blockIndex (inferExtensionFromContent actualContent))
         else filePath)
      in stripLeadingSlash filePath)"

text \<open>An entry of \<^verbatim>\<open>files\<close>.\<close>

record file_artifact =
  filePath :: string
  content :: string

text \<open>\<^verbatim>\<open>match[i]?.trim() || ""\<close>\<close>

definition capture :: "string option \<Rightarrow> string" where
  "capture g = (case g of Some t \<Rightarrow> trim t | None \<Rightarrow> [])"

function parseBlocks :: "string \<Rightarrow> file_artifact list \<Rightarrow> nat \<Rightarrow> file_artifact list" where
  "parseBlocks text files blockIndex =
     (case search codeBlockPattern text of
        None \<Rightarrow> files
      | Some ((g1, g2, g3), rest) \<Rightarrow>
          (let language = capture g1;
               explicitPath = capture g2;
               actualContent = g3;
               filePath = resolvePath language explicitPath actualContent blockIndex
           in if trim actualContent \<noteq> [] then
                parseBlocks rest
                  (files @ [\<lparr>filePath = filePath, content = actualContent\<rparr>]) (blockIndex + 1)
              else parseBlocks rest files blockIndex))"
  by pat_completeness auto
termination
  by (relation "measure (\<lambda>(text, files, blockIndex). length text)")
     (auto dest: codeBlockPattern_consumes)

declare parseBlocks.simps [simp del]

text \<open>
  \<^verbatim>\<open>codeMarkdown.replace(/^#+\s+/gm, "")\<close>: a match is dropped and the scan resumes
  after it; whether that position starts a line depends on the last character of the
  match.
\<close>

definition headingMarker :: "(char \<times> string) matcher" where
  "headingMarker = plus (\<lambda>c. c = CHR ''#'') (\<lambda>_. plus is_space (\<lambda>g. accept (last g)))"

lemma headingMarker_consumes:
  assumes "headingMarker s = Some (x, r)"
  shows "length r < length s"
  using assms unfolding headingMarker_def
  by (rule plus_consumes [rotated]) (intro shrinking_plus shrinking_accept)

function stripHeadings :: "bool \<Rightarrow> string \<Rightarrow> string" where
  "stripHeadings ls [] = []"
| "stripHeadings ls (c # cs) =
     (case (if ls then headingMarker (c # cs) else None) of
        Some (e, rest) \<Rightarrow> stripHeadings (is_line_terminator e) rest
      | None \<Rightarrow> c # stripHeadings (is_line_terminator c) cs)"
  by pat_completeness auto
termination
  by (relation "measure (\<lambda>(ls, s). length s)")
     (auto dest: headingMarker_consumes split: if_splits)

text \<open>\<^verbatim>\<open>/^[^#*`\[\]]/m\<close>\<close>

definition plainCodePattern :: "unit matcher" where
  "plainCodePattern =
     search_lines (one (\<lambda>c. c \<notin> set ''#*`[]'') (\<lambda>_. Some ())) True"

definition parseCodeFiles :: "string \<Rightarrow> file_artifact list" where
  "parseCodeFiles codeMarkdown =
     (let files = parseBlocks codeMarkdown [] 0
      in if files = [] \<and> trim codeMarkdown \<noteq> [] then
           (let cleaned = trim (stripHeadings True codeMarkdown)
            in if matches (plainCodePattern cleaned) \<or> str_includes cleaned ''function'' \<or>
                  str_includes cleaned ''class'' \<or> str_includes cleaned ''import''
               then files @
                 [\<lparr>filePath = ''main'' @ inferExtensionFromContent cleaned, content = cleaned\<rparr>]
               else files)
         else files)"

section \<open>Paths\<close>

text \<open>
  The functions of Node's \<^verbatim>\<open>path\<close> module that the file manager calls, in their POSIX
  form: \<^verbatim>\<open>path.join\<close> of two parts (with \<^verbatim>\<open>path.normalize\<close>), \<^verbatim>\<open>path.dirname\<close> and
  \<^verbatim>\<open>path.resolve\<close> of one path against the working directory.
\<close>

fun splitSlash :: "string \<Rightarrow> string list" where
  "splitSlash [] = [] # []"
| "splitSlash (c # cs) =
     (if c = CHR ''/'' then [] # splitSlash cs
      else (case splitSlash cs of seg # segs \<Rightarrow> (c # seg) # segs | [] \<Rightarrow> [c] # []))"

fun joinSlash :: "string list \<Rightarrow> string" where
  "joinSlash [] = []"
| "joinSlash [seg] = seg"
| "joinSlash (seg # segs) = seg @ ''/'' @ joinSlash segs"

text \<open>
  \<^verbatim>\<open>normalizeString\<close>: empty and \<^verbatim>\<open>.\<close> segments are dropped; \<^verbatim>\<open>..\<close> removes the
  segment before it, and is kept only where the path may climb above its start. The
  segments kept so far are held last-first.
\<close>

fun normalizeSegments :: "bool \<Rightarrow> string list \<Rightarrow> string list \<Rightarrow> string list" where
  "normalizeSegments allowAboveRoot res [] = rev res"
| "normalizeSegments allowAboveRoot res (seg # segs) =
     (if seg = [] \<or> seg = ''.'' then normalizeSegments allowAboveRoot res segs
      else if seg = ''..'' then
        (case res of
           [] \<Rightarrow> normalizeSegments allowAboveRoot (if allowAboveRoot then [''..''] else []) segs
         | lastSeg # below \<Rightarrow>
             if lastSeg = ''..'' then
               normalizeSegments allowAboveRoot (if allowAboveRoot then ''..'' # res else res) segs
             else normalizeSegments allowAboveRoot below segs)
      else normalizeSegments allowAboveRoot (seg # res) segs)"

definition path_normalize :: "string \<Rightarrow> string" where
  "path_normalize path =
     (if path = [] then ''.''
      else
        (let isAbsolute = (hd path = CHR ''/'');
             trailingSeparator = (last path = CHR ''/'');
             p = joinSlash (normalizeSegments (\<not> isAbsolute) [] (splitSlash path))
         in if p = [] then (if isAbsolute then ''/'' else if trailingSeparator then ''./'' else ''.'')
            else (if isAbsolute then ''/'' else []) @ p @ (if trailingSeparator then ''/'' else [])))"

definition path_join :: "string \<Rightarrow> string \<Rightarrow> string" where
  "path_join a b =
     (if a = [] \<and> b = [] then ''.''
      else if a = [] then path_normalize b
      else if b = [] then path_normalize a
      else path_normalize (a @ ''/'' @ b))"

text \<open>
  \<^verbatim>\<open>path.dirname\<close>: trailing slashes are passed over, then the text before the last
  slash is taken; the first character is never the end.
\<close>

definition path_dirname :: "string \<Rightarrow> string" where
  "path_dirname path =
     (if path = [] then ''.''
      else
        (let hasRoot = (hd path = CHR ''/'');
             body = rev (dropWhile (\<lambda>c. c = CHR ''/'') (rev (tl path)))
         in if CHR ''/'' \<notin> set body then (if hasRoot then ''/'' else ''.'')
            else
              (let stop = length body - length (takeWhile (\<lambda>c. c \<noteq> CHR ''/'') (rev body))
               in if hasRoot \<and> stop = 1 then ''//'' else take stop path)))"

text \<open>
  \<^verbatim>\<open>path.resolve\<close>: the segments of the path from the root, a relative path being taken
  from the working directory; the resolved path has no trailing slash.
\<close>

definition path_segments :: "string \<Rightarrow> string \<Rightarrow> string list" where
  "path_segments dir path =
     (let full = (if path \<noteq> [] \<and> hd path = CHR ''/'' then path else dir @ ''/'' @ path)
      in normalizeSegments False [] (splitSlash full))"

definition path_resolve :: "string \<Rightarrow> string \<Rightarrow> string" where
  "path_resolve dir path = ''/'' @ joinSlash (path_segments dir path)"

section \<open>File system\<close>

text \<open>
  The state that \<^verbatim>\<open>fs/promises\<close> reads and changes: the working directory of the
  process and the nodes of the file tree, keyed by resolved path. The root is always a
  directory. Every path that the file manager hands over comes from \<^verbatim>\<open>path.join\<close> or
  \<^verbatim>\<open>path.dirname\<close>, so \<^verbatim>\<open>.\<close> and \<^verbatim>\<open>..\<close> occur at its front only, and resolving
  them in the text agrees with walking the tree. Permissions, links and a full disk are
  not part of the state.
\<close>

datatype node = Dir | File string

record world =
  cwd :: string
  nodes :: "string \<rightharpoonup> node"

datatype errno = EEXIST | ENOTDIR | ENOENT | EISDIR | ENAMETOOLONG | ERR_INVALID_ARG_VALUE

definition lookup :: "world \<Rightarrow> string \<Rightarrow> node option" where
  "lookup w p = (if p = ''/'' then Some Dir else nodes w p)"

text \<open>
  The length of a name on disk, in bytes of UTF-8: a code unit from 128 on takes two. A
  name may have 255 bytes, a whole path fewer than 4096.
\<close>

definition utf8_length :: "string \<Rightarrow> nat" where
  "utf8_length s = length s + length (filter (\<lambda>c. (128 :: nat) \<le> of_char c) s)"

definition name_too_long :: "string \<Rightarrow> bool" where
  "name_too_long seg \<longleftrightarrow> 255 < utf8_length seg"

text \<open>
  What is refused before any look-up: Node rejects a path with a NUL character, the
  system the empty path and a path that is too long.
\<close>

definition path_refused :: "string \<Rightarrow> errno option" where
  "path_refused path =
     (if CHR 0x00 \<in> set path then Some ERR_INVALID_ARG_VALUE
      else if path = [] then Some ENOENT
      else if 4096 \<le> utf8_length path then Some ENAMETOOLONG
      else None)"

text \<open>
  Walking down from the directory \<open>dir\<close> (empty for the root) through directories: the
  first segment that is too long, missing or a regular file ends the walk.
\<close>

fun walk :: "world \<Rightarrow> string \<Rightarrow> string list \<Rightarrow> errno + string" where
  "walk w dir [] = Inr dir"
| "walk w dir (seg # segs) =
     (if name_too_long seg then Inl ENAMETOOLONG
      else
        (case lookup w (dir @ ''/'' @ seg) of
           None \<Rightarrow> Inl ENOENT
         | Some (File _) \<Rightarrow> Inl ENOTDIR
         | Some Dir \<Rightarrow> walk w (dir @ ''/'' @ seg) segs))"

text \<open>
  \<^verbatim>\<open>fs.stat\<close>: the node at the path, or a failure; a regular file named with a
  trailing slash is a failure.
\<close>

definition fs_stat :: "world \<Rightarrow> string \<Rightarrow> errno + node" where
  "fs_stat w path =
     (case path_refused path of
        Some e \<Rightarrow> Inl e
      | None \<Rightarrow>
          (case path_segments (cwd w) path of
             [] \<Rightarrow> Inr Dir
           | seg # segs \<Rightarrow>
               (case walk w [] (butlast (seg # segs)) of
                  Inl e \<Rightarrow> Inl e
                | Inr dir \<Rightarrow>
                    (let name = last (seg # segs)
                     in if name_too_long name then Inl ENAMETOOLONG
                        else
                          (case lookup w (dir @ ''/'' @ name) of
                             None \<Rightarrow> Inl ENOENT
                           | Some Dir \<Rightarrow> Inr Dir
                           | Some (File d) \<Rightarrow>
                               if last path = CHR ''/'' then Inl ENOTDIR else Inr (File d))))))"

text \<open>
  \<^verbatim>\<open>fs.mkdir(path, { recursive: true })\<close>: every missing directory on the way is
  created, from the outermost on; a regular file at the path or above it, or a name that
  is too long, is a failure, and the directories made before it stay.
\<close>

fun mkdirs :: "world \<Rightarrow> string \<Rightarrow> string list \<Rightarrow> (errno + unit) \<times> world" where
  "mkdirs w dir [] = (Inr (), w)"
| "mkdirs w dir (seg # segs) =
     (case lookup w (dir @ ''/'' @ seg) of
        Some Dir \<Rightarrow> mkdirs w (dir @ ''/'' @ seg) segs
      | Some (File _) \<Rightarrow> (Inl (if segs = [] then EEXIST else ENOTDIR), w)
      | None \<Rightarrow>
          if name_too_long seg then (Inl ENAMETOOLONG, w)
          else mkdirs (w\<lparr>nodes := (nodes w)(dir @ ''/'' @ seg \<mapsto> Dir)\<rparr>) (dir @ ''/'' @ seg) segs)"

definition fs_mkdir :: "string \<Rightarrow> world \<Rightarrow> (errno + unit) \<times> world" where
  "fs_mkdir path w =
     (case path_refused path of
        Some e \<Rightarrow> (Inl e, w)
      | None \<Rightarrow> mkdirs w [] (path_segments (cwd w) path))"

text \<open>
  \<^verbatim>\<open>fs.writeFile(path, data)\<close>: the file is created or replaced in an existing
  directory. A path with a trailing slash names a directory and cannot be written, nor
  can the root or an existing directory.
\<close>

definition fs_writeFile :: "string \<Rightarrow> string \<Rightarrow> world \<Rightarrow> errno + world" where
  "fs_writeFile path data w =
     (case path_refused path of
        Some e \<Rightarrow> Inl e
      | None \<Rightarrow>
          (case path_segments (cwd w) path of
             [] \<Rightarrow> Inl EISDIR
           | seg # segs \<Rightarrow>
               (case walk w [] (butlast (seg # segs)) of
                  Inl e \<Rightarrow> Inl e
                | Inr dir \<Rightarrow>
                    (let name = last (seg # segs); p = dir @ ''/'' @ name
                     in if last path = CHR ''/'' then Inl EISDIR
                        else if name_too_long name then Inl ENAMETOOLONG
                        else
                          (case lookup w p of
                             Some Dir \<Rightarrow> Inl EISDIR
                           | _ \<Rightarrow> Inr (w\<lparr>nodes := (nodes w)(p \<mapsto> File data)\<rparr>))))))"

section \<open>Project writer\<close>

datatype error =
  NoFilesFound
| DirectoryCreateFailed string errno
| FileWriteFailed string errno

record project_handle =
  folderPath :: string
  files :: "string list"

text \<open>\<^verbatim>\<open>ensureDirectory\<close>: a failure other than \<^verbatim>\<open>EEXIST\<close> is raised again.\<close>

definition ensureDirectory :: "string \<Rightarrow> world \<Rightarrow> (error + unit) \<times> world" where
  "ensureDirectory dirPath w =
     (case fs_mkdir dirPath w of
        (Inr _, w') \<Rightarrow> (Inr (), w')
      | (Inl code, w') \<Rightarrow>
          if code \<noteq> EEXIST then (Inl (DirectoryCreateFailed dirPath code), w') else (Inr (), w'))"

text \<open>The \<^verbatim>\<open>for\<close> loop of \<^verbatim>\<open>writeFilesToFolder\<close>, with \<^verbatim>\<open>createdFiles\<close> as accumulator.\<close>

fun writeEach ::
  "string \<Rightarrow> file_artifact list \<Rightarrow> string list \<Rightarrow> world \<Rightarrow> (error + string list) \<times> world" where
  "writeEach dir [] createdFiles w = (Inr createdFiles, w)"
| "writeEach dir (file # rest) createdFiles w =
     (let fullFilePath = path_join dir (filePath file);
          fileDir = path_dirname fullFilePath
      in case (if fileDir \<noteq> dir then ensureDirectory fileDir w else (Inr (), w)) of
           (Inl e, w1) \<Rightarrow> (Inl e, w1)
         | (Inr _, w1) \<Rightarrow>
             (case fs_writeFile fullFilePath (content file) w1 of
                Inl code \<Rightarrow> (Inl (FileWriteFailed (filePath file) code), w1)
              | Inr w2 \<Rightarrow> writeEach dir rest (createdFiles @ [filePath file]) w2))"

definition writeFilesToFolder ::
  "string \<Rightarrow> file_artifact list \<Rightarrow> world \<Rightarrow> (error + project_handle) \<times> world" where
  "writeFilesToFolder dir parsedFiles w =
     (case writeEach dir parsedFiles [] w of
        (Inl e, w') \<Rightarrow> (Inl e, w')
      | (Inr createdFiles, w') \<Rightarrow> (Inr \<lparr>folderPath = dir, files = createdFiles\<rparr>, w'))"

text \<open>
  \<^verbatim>\<open>writeFiles(task, codeMarkdown)\<close>, with \<^verbatim>\<open>this.basePath\<close> and the value of
  \<^verbatim>\<open>Date.now()\<close> as further arguments. When the folder exists, the new folder is made
  and written inside the \<^verbatim>\<open>try\<close> block, so a failure there is caught like the failure
  of \<^verbatim>\<open>fs.stat\<close>, and the files then go to the folder of the plain name.
\<close>

definition writeFiles ::
  "string \<Rightarrow> nat \<Rightarrow> string \<Rightarrow> string \<Rightarrow> world \<Rightarrow> (error + project_handle) \<times> world" where
  "writeFiles basePath now task codeMarkdown w =
     (let parsedFiles = parseCodeFiles codeMarkdown
      in if parsedFiles = [] then (Inl NoFilesFound, w)
         else
           (let folderName = sanitizeFolderName task;
                dir = path_join basePath folderName;
                caught = (\<lambda>w1. case ensureDirectory dir w1 of
                    (Inl e, w2) \<Rightarrow> (Inl e, w2)
                  | (Inr _, w2) \<Rightarrow> writeFilesToFolder dir parsedFiles w2)
            in case fs_stat w dir of
                 Inl _ \<Rightarrow> caught w
               | Inr (File _) \<Rightarrow> writeFilesToFolder dir parsedFiles w
               | Inr Dir \<Rightarrow>
                   (let uniqueFolderName = folderName @ ''_'' @ string_of_nat now;
                        newFolderPath = path_join basePath uniqueFolderName
                    in case ensureDirectory newFolderPath w of
                         (Inl _, w1) \<Rightarrow> caught w1
                       | (Inr _, w1) \<Rightarrow>
                           (case writeFilesToFolder newFolderPath parsedFiles w1 of
                              (Inl _, w2) \<Rightarrow> caught w2
                            | (Inr h, w2) \<Rightarrow> (Inr h, w2)))))"

section \<open>Run instructions\<close>

record dirent =
  name :: string
  isFile :: bool

text \<open>
  \<^verbatim>\<open>generateRunInstructions(folderPath)\<close>. The answer of
  \<^verbatim>\<open>fs.readdir(folderPath, { withFileTypes: true })\<close> is an argument: the entries of the
  folder in the order the system lists them, or \<open>None\<close> when the call fails.
\<close>

definition generateRunInstructions :: "string \<Rightarrow> string \<Rightarrow> dirent list option \<Rightarrow> string list" where
  "generateRunInstructions dir folder entries =
     (let absPath = path_resolve dir folder
      in case entries of
           None \<Rightarrow>
             [''1. cd '' @ absPath, ''2. Review the project files to determine how to run'']
         | Some es \<Rightarrow>
           (let fs = map name (filter isFile es)
            in if ''package.json'' \<in> set fs then
                 [''1. cd '' @ absPath, ''2. npm install'', ''3. npm start'']
               else if ''requirements.txt'' \<in> set fs then
                 [''1. cd '' @ absPath, ''2. pip install -r requirements.txt'',
                  ''3. python main.py'']
               else if ''index.html'' \<in> set fs then
                 [''1. cd '' @ absPath, ''2. open index.html'']
               else if ''main.py'' \<in> set fs then
                 [''1. cd '' @ absPath, ''2. python main.py'']
               else if ''main.js'' \<in> set fs \<or> ''index.js'' \<in> set fs then
                 [''1. cd '' @ absPath,
                  ''2. node '' @ (if ''main.js'' \<in> set fs then ''main.js'' else ''index.js'')]
               else if list_ex (suffix ''.html'') fs then
                 (case find (suffix ''.html'') fs of
                    Some htmlFile \<Rightarrow> [''1. cd '' @ absPath, ''2. open '' @ htmlFile]
                  | None \<Rightarrow> [''1. cd '' @ absPath, ''2. open undefined''])
               else
                 [''1. cd '' @ absPath,
                  ''2. Check the project files and run the appropriate command'']))"

section \<open>Notions of the specification\<close>

text \<open>The position after \<open>pre\<close> starts a line; \<open>ls\<close> says so for the start of the text.\<close>

definition line_start_after :: "bool \<Rightarrow> string \<Rightarrow> bool" where
  "line_start_after ls pre \<longleftrightarrow> (if pre = [] then ls else is_line_terminator (last pre))"

text \<open>The text contains the pattern.\<close>

definition contains :: "string \<Rightarrow> string \<Rightarrow> bool" where
  "contains s p \<longleftrightarrow> (\<exists>pre post. s = pre @ p @ post)"

text \<open>
  The text contains a CSS selector pattern: \<^verbatim>\<open>.\<close> or \<^verbatim>\<open>#\<close>, an identifier of word
  characters and hyphens, optional white space and an opening brace.
\<close>

definition has_css_selector :: "string \<Rightarrow> bool" where
  "has_css_selector s \<longleftrightarrow>
     (\<exists>pre sel ident ws post.
        s = pre @ sel # ident @ ws @ ''{'' @ post \<and> (sel = CHR ''.'' \<or> sel = CHR ''#'') \<and>
        ident \<noteq> [] \<and> (\<forall>c \<in> set ident. is_word c \<or> c = CHR ''-'') \<and>
        (\<forall>c \<in> set ws. is_space c))"

text \<open>The text starts, after optional white space, with \<^verbatim>\<open><\<close> and a tag name.\<close>

definition starts_with_tag :: "string \<Rightarrow> bool" where
  "starts_with_tag s \<longleftrightarrow>
     (\<exists>ws tag post.
        s = ws @ ''<'' @ tag @ post \<and> (\<forall>c \<in> set ws. is_space c) \<and> tag \<noteq> [] \<and>
        (\<forall>c \<in> set tag. is_word c))"

text \<open>
  The content-sniffing rules in the words of the spec, first match first. The rule for
  PHP is a parameter: the spec has ``starts with \<^verbatim>\<open><?php\<close>''.
\<close>

definition contentSniffing :: "(string \<Rightarrow> bool) \<Rightarrow> string \<Rightarrow> string" where
  "contentSniffing php s =
     (if contains s ''<!DOCTYPE'' \<or> contains s ''<html'' then ''.html''
      else if has_css_selector s then ''.css''
      else if contains s ''import '' \<and> contains s ''from '' then ''.js''
      else if contains s ''require('' then ''.js''
      else if (contains s ''def '' \<or> contains s ''import '') \<and> contains s ''print('' \<and>
              \<not> contains s ''console.'' then ''.py''
      else if contains s ''package '' \<or> contains s ''public class'' then ''.java''
      else if php s then ''.php''
      else if starts_with_tag s then ''.html''
      else ''.js'')"

text \<open>
  The fallback's test for code: some position that starts a line (the start of the text,
  or the position after a line feed or a carriage return) holds a character that is not
  a markdown marker, or the text contains one of three keywords. The character at that
  position may be any, a line terminator too: an empty line counts, and so does the line
  feed that follows a carriage return.
\<close>

definition markdown_marker :: "char \<Rightarrow> bool" where
  "markdown_marker c \<longleftrightarrow> c \<in> set ''#*`[]''"

definition looks_like_code :: "string \<Rightarrow> bool" where
  "looks_like_code t \<longleftrightarrow>
     (\<exists>pre c post. t = pre @ c # post \<and> line_start_after True pre \<and> \<not> markdown_marker c) \<or>
     contains t ''function'' \<or> contains t ''class'' \<or> contains t ''import''"

text \<open>
  The fenced blocks of a text in document order, as the scanning loop meets them: the
  language tag, the explicit path (both empty when absent) and the body of each.
\<close>

function scanBlocks :: "string \<Rightarrow> (string \<times> string \<times> string) list" where
  "scanBlocks text =
     (case search codeBlockPattern text of
        None \<Rightarrow> []
      | Some ((g1, g2, g3), rest) \<Rightarrow> (capture g1, capture g2, g3) # scanBlocks rest)"
  by pat_completeness auto
termination
  by (relation "measure length") (auto dest: codeBlockPattern_consumes)

declare scanBlocks.simps [simp del]

text \<open>The artifacts of a sequence of blocks, the first accepted one having index \<open>i\<close>.\<close>

fun emit :: "nat \<Rightarrow> (string \<times> string \<times> string) list \<Rightarrow> file_artifact list" where
  "emit i [] = []"
| "emit i ((l, e, b) # bs) =
     (if trim b \<noteq> [] then \<lparr>filePath = resolvePath l e b i, content = b\<rparr> # emit (i + 1) bs
      else emit i bs)"

text \<open>The extension of a block that is named by its index.\<close>

definition blockExtension :: "string \<Rightarrow> string \<Rightarrow> string" where
  "blockExtension l b = (if l \<noteq> [] then getExtensionFromLanguage l else inferExtensionFromContent b)"

text \<open>
  The parts of a comment that declares a path in the usual way: runs of white space, and
  a path that starts with a visible character and stays on its line.
\<close>

definition spaces :: "string \<Rightarrow> bool" where
  "spaces ws \<longleftrightarrow> (\<forall>c \<in> set ws. is_space c)"

definition plain_path :: "string \<Rightarrow> bool" where
  "plain_path p \<longleftrightarrow> p \<noteq> [] \<and> \<not> is_space (hd p) \<and> nl \<notin> set p"



section \<open>Properties of folder names\<close>

lemma underscore_not_space: "\<not> is_space (CHR ''_'')"
  by (simp add: is_space_def)

lemma collapse_spaces_no_space: "\<forall>c \<in> set (collapse_spaces s). \<not> is_space c"
proof (induction s rule: collapse_spaces.induct)
  case 1
  show ?case by simp
next
  case (2 c cs)
  show ?case
  proof (cases "is_space c")
    case True
    with 2 show ?thesis by (simp add: underscore_not_space)
  next
    case False
    with 2 show ?thesis by simp
  qed
qed

lemma collapse_spaces_chars:
  "\<forall>c \<in> set s. folder_char c \<Longrightarrow> \<forall>c \<in> set (collapse_spaces s). folder_char c"
proof (induction s rule: collapse_spaces.induct)
  case 1
  show ?case by simp
next
  case (2 c cs)
  have "\<forall>c \<in> set (dropWhile is_space cs). folder_char c"
    using "2.prems" by (auto dest: set_dropWhileD)
  with 2 show ?case by (auto simp: folder_char_def)
qed

lemma collapse_spaces_id: "\<forall>c \<in> set s. \<not> is_space c \<Longrightarrow> collapse_spaces s = s"
  by (induction s) auto

lemma dropWhile_none: "\<forall>c \<in> set s. \<not> P c \<Longrightarrow> dropWhile P s = s"
  by (cases s) auto

lemma trim_id: "\<forall>c \<in> set s. \<not> is_space c \<Longrightarrow> trim s = s"
  by (simp add: trim_def dropWhile_none)

lemma trim_subset: "set (trim s) \<subseteq> set s"
  unfolding trim_def by (auto dest!: set_dropWhileD)

lemma sanitized_fixed:
  assumes "\<forall>c \<in> set s. folder_char c \<and> \<not> is_space c" "length s \<le> 50" "s \<noteq> []"
  shows "sanitizeFolderName s = s"
proof -
  have "filter folder_char s = s"
    using assms(1) by (simp add: filter_id_conv)
  moreover have "trim s = s" "collapse_spaces s = s"
    using assms(1) by (simp_all add: trim_id collapse_spaces_id)
  ultimately show ?thesis
    using assms(2,3) by (simp add: sanitizeFolderName_def)
qed

text \<open>
  C9. Sanitizing a folder name is idempotent: the result of \<open>sanitizeFolderName\<close> is left
  unchanged by a second application, for every task string.
\<close>

theorem sanitizeFolderName_idempotent:
  "sanitizeFolderName (sanitizeFolderName s) = sanitizeFolderName s"
proof -
  let ?t = "take 50 (collapse_spaces (trim (filter folder_char s)))"
  show ?thesis
  proof (cases "?t = []")
    case True
    then have "sanitizeFolderName s = ''coding_task''"
      by (simp add: sanitizeFolderName_def)
    moreover have "sanitizeFolderName ''coding_task'' = ''coding_task''"
      by (rule sanitized_fixed)
         (simp_all add: folder_char_def is_space_def is_lower_def)
    ultimately show ?thesis by simp
  next
    case False
    then have eq: "sanitizeFolderName s = ?t"
      by (simp add: sanitizeFolderName_def)
    have "\<forall>c \<in> set (trim (filter folder_char s)). folder_char c"
      using trim_subset [of "filter folder_char s"] by auto
    then have "\<forall>c \<in> set (collapse_spaces (trim (filter folder_char s))). folder_char c"
      by (rule collapse_spaces_chars)
    then have "\<forall>c \<in> set ?t. folder_char c \<and> \<not> is_space c"
      using collapse_spaces_no_space [of "trim (filter folder_char s)"]
      by (auto dest: in_set_takeD)
    moreover have "length ?t \<le> 50"
      by simp
    ultimately have "sanitizeFolderName ?t = ?t"
      using False by (rule sanitized_fixed)
    with eq show ?thesis by simp
  qed
qed

section \<open>What the matchers accept\<close>

text \<open>
  A matcher built from the combinators succeeds exactly when the text splits into pieces
  that fit the pattern and lead the continuation to succeed.
\<close>

lemma matches_lit: "matches (lit p k s) \<longleftrightarrow> (\<exists>r. s = p @ r \<and> matches (k r))"
  by (auto simp: lit_def matches_def prefix_def)

lemma matches_one: "matches (one C k s) \<longleftrightarrow> (\<exists>c r. s = c # r \<and> C c \<and> matches (k r))"
  by (cases s) (auto simp: matches_def)

lemma matches_star:
  "matches (star C k s) \<longleftrightarrow> (\<exists>g r. s = g @ r \<and> (\<forall>c \<in> set g. C c) \<and> matches (k g r))"
proof (induction s arbitrary: k)
  case Nil
  show ?case by (simp add: matches_def)
next
  case (Cons c cs)
  have "matches (star C k (c # cs)) \<longleftrightarrow>
        (C c \<and> matches (star C (\<lambda>g. k (c # g)) cs)) \<or> matches (k [] (c # cs))"
    by (auto simp: matches_def split: option.splits)
  also have "\<dots> \<longleftrightarrow> (C c \<and> (\<exists>g r. cs = g @ r \<and> (\<forall>x \<in> set g. C x) \<and> matches (k (c # g) r))) \<or>
        matches (k [] (c # cs))"
    by (simp add: Cons.IH)
  also have "\<dots> \<longleftrightarrow> (\<exists>g r. c # cs = g @ r \<and> (\<forall>x \<in> set g. C x) \<and> matches (k g r))"
    (is "?l \<longleftrightarrow> ?r")
  proof
    assume ?l
    then show ?r
    proof
      assume "C c \<and> (\<exists>g r. cs = g @ r \<and> (\<forall>x \<in> set g. C x) \<and> matches (k (c # g) r))"
      then obtain g r where "cs = g @ r" "\<forall>x \<in> set (c # g). C x" "matches (k (c # g) r)"
        by auto
      then show ?r by (intro exI [of _ "c # g"] exI [of _ r]) simp
    next
      assume "matches (k [] (c # cs))"
      then show ?r by (intro exI [of _ "[]"] exI [of _ "c # cs"]) simp
    qed
  next
    assume ?r
    then obtain g r where g: "c # cs = g @ r" "\<forall>x \<in> set g. C x" "matches (k g r)"
      by blast
    show ?l
    proof (cases g)
      case Nil
      with g show ?thesis by simp
    next
      case (Cons a g')
      with g show ?thesis by auto
    qed
  qed
  finally show ?case .
qed

lemma matches_plus:
  "matches (plus C k s) \<longleftrightarrow>
   (\<exists>g r. s = g @ r \<and> g \<noteq> [] \<and> (\<forall>c \<in> set g. C c) \<and> matches (k g r))"
proof (cases s)
  case Nil
  then show ?thesis by (simp add: matches_def)
next
  case (Cons c cs)
  have "matches (plus C k (c # cs)) \<longleftrightarrow>
        C c \<and> (\<exists>g r. cs = g @ r \<and> (\<forall>x \<in> set g. C x) \<and> matches (k (c # g) r))"
    using matches_star [of C "\<lambda>g. k (c # g)" cs] by (simp add: matches_def)
  also have "\<dots> \<longleftrightarrow> (\<exists>g r. c # cs = g @ r \<and> g \<noteq> [] \<and> (\<forall>x \<in> set g. C x) \<and> matches (k g r))"
    (is "?l \<longleftrightarrow> ?r")
  proof
    assume ?l
    then obtain g r where "cs = g @ r" "\<forall>x \<in> set (c # g). C x" "matches (k (c # g) r)"
      by auto
    then show ?r by (intro exI [of _ "c # g"] exI [of _ r]) simp
  next
    assume ?r
    then obtain g r where g: "c # cs = g @ r" "g \<noteq> []" "\<forall>x \<in> set g. C x" "matches (k g r)"
      by blast
    then show ?l by (cases g) auto
  qed
  finally show ?thesis using Cons by simp
qed

lemma matches_search: "matches (search m s) \<longleftrightarrow> (\<exists>pre t. s = pre @ t \<and> matches (m t))"
proof (induction s)
  case Nil
  show ?case by (simp add: matches_def)
next
  case (Cons c cs)
  have "matches (search m (c # cs)) \<longleftrightarrow> matches (m (c # cs)) \<or> matches (search m cs)"
    by (auto simp: matches_def split: option.splits)
  also have "\<dots> \<longleftrightarrow> (\<exists>pre t. c # cs = pre @ t \<and> matches (m t))"
    unfolding Cons.IH by (auto simp: Cons_eq_append_conv) 
  finally show ?case .
qed

lemma matches_search_lines:
  "matches (search_lines m ls s) \<longleftrightarrow>
   (\<exists>pre t. s = pre @ t \<and> line_start_after ls pre \<and> matches (m t))"
proof (induction s arbitrary: ls)
  case Nil
  show ?case by (simp add: matches_def line_start_after_def)
next
  case (Cons c cs)
  have "matches (search_lines m ls (c # cs)) \<longleftrightarrow>
        (ls \<and> matches (m (c # cs))) \<or> matches (search_lines m (is_line_terminator c) cs)"
    by (auto simp: matches_def split: option.splits)
  also have "\<dots> \<longleftrightarrow> (ls \<and> matches (m (c # cs))) \<or>
      (\<exists>pre t. cs = pre @ t \<and> line_start_after (is_line_terminator c) pre \<and> matches (m t))"
    by (simp add: Cons.IH)
  also have "\<dots> \<longleftrightarrow> (\<exists>pre t. c # cs = pre @ t \<and> line_start_after ls pre \<and> matches (m t))"
    (is "?l \<longleftrightarrow> ?r")
  proof
    assume ?l
    then show ?r
    proof
      assume "ls \<and> matches (m (c # cs))"
      then show ?r
        by (intro exI [of _ "[]"] exI [of _ "c # cs"]) (simp add: line_start_after_def)
    next
      assume "\<exists>pre t. cs = pre @ t \<and> line_start_after (is_line_terminator c) pre \<and> matches (m t)"
      then obtain pre t where "cs = pre @ t" "line_start_after (is_line_terminator c) pre"
        "matches (m t)" by blast
      then show ?r
        by (intro exI [of _ "c # pre"] exI [of _ t]) (auto simp: line_start_after_def)
    qed
  next
    assume ?r
    then obtain pre t where p: "c # cs = pre @ t" "line_start_after ls pre" "matches (m t)"
      by blast
    show ?l
    proof (cases pre)
      case Nil
      with p show ?thesis by (simp add: line_start_after_def)
    next
      case (Cons a pre')
      with p have "cs = pre' @ t" "line_start_after (is_line_terminator c) pre'" 
        by (auto simp: line_start_after_def)
      with p(3) show ?thesis by blast
    qed
  qed
  finally show ?case .
qed

lemma str_includes_iff: "str_includes s p \<longleftrightarrow> (\<exists>pre post. s = pre @ p @ post)"
proof (induction s)
  case Nil
  show ?case by auto
next
  case (Cons c cs)
  show ?case
    unfolding str_includes.simps Cons.IH prefix_def
    by (auto simp: Cons_eq_append_conv)
qed

lemma matches_Some: "matches (Some x)"
  by (simp add: matches_def)

lemma str_includes_contains: "str_includes s p \<longleftrightarrow> contains s p"
  by (simp add: str_includes_iff contains_def)

text \<open>A greedy quantifier that can take a whole run, and succeeds with it, answers that.\<close>

lemma lit_append: "lit p k (p @ r) = k r"
  by (simp add: lit_def)

lemma star_greedy:
  assumes "\<forall>c \<in> set g. C c" "r = [] \<or> \<not> C (hd r)" "k g r \<noteq> None"
  shows "star C k (g @ r) = k g r"
  using assms
proof (induction g arbitrary: k)
  case Nil
  then show ?case by (cases r) auto
next
  case (Cons a g)
  from Cons.prems have "star C (\<lambda>x. k (a # x)) (g @ r) = k (a # g) r"
    by (intro Cons.IH) auto
  with Cons.prems show ?case by (auto split: option.splits)
qed

lemma plus_greedy:
  assumes "g \<noteq> []" "\<forall>c \<in> set g. C c" "r = [] \<or> \<not> C (hd r)" "k g r \<noteq> None"
  shows "plus C k (g @ r) = k g r"
proof -
  from assms(1) obtain a g' where g: "g = a # g'"
    by (cases g) auto
  with assms have "star C (\<lambda>x. k (a # x)) (g' @ r) = k (a # g') r"
    by (intro star_greedy) auto
  with g assms(2) show ?thesis by simp
qed

lemma star_spaces:
  assumes "spaces g" "r \<noteq> []" "\<not> is_space (hd r)" "k g r = Some x"
  shows "star is_space k (g @ r) = Some x"
proof -
  have "star is_space k (g @ r) = k g r"
    using assms by (intro star_greedy) (simp_all add: spaces_def)
  with assms(4) show ?thesis by simp
qed

lemma search_lines_first:
  assumes "m t = Some g" "line_start_after ls pre"
    and "\<forall>pre1 pre2. pre = pre1 @ pre2 \<and> pre2 \<noteq> [] \<and> line_start_after ls pre1 \<longrightarrow>
           m (pre2 @ t) = None"
  shows "search_lines m ls (pre @ t) = Some g"
  using assms(2,3)
proof (induction pre arbitrary: ls)
  case Nil
  then have ls by (simp add: line_start_after_def)
  with assms(1) show ?case by (cases t) simp_all
next
  case (Cons a pre)
  have skip: "(if ls then m (a # pre @ t) else None) = None"
  proof (cases ls)
    case True
    then have "line_start_after ls []"
      by (simp add: line_start_after_def)
    with Cons.prems(2) [rule_format, of "[]" "a # pre"] show ?thesis
      by simp
  next
    case False
    then show ?thesis by simp
  qed
  have start: "line_start_after (is_line_terminator a) pre"
    using Cons.prems(1) by (auto simp: line_start_after_def)
  have "m (pre2 @ t) = None"
    if "pre = pre1 @ pre2" "pre2 \<noteq> []" "line_start_after (is_line_terminator a) pre1"
    for pre1 pre2
  proof -
    from that(3) have "line_start_after ls (a # pre1)"
      by (auto simp: line_start_after_def)
    with Cons.prems(2) [rule_format, of "a # pre1" pre2] that(1,2) show ?thesis
      by simp
  qed
  with Cons.IH [OF start] have "search_lines m (is_line_terminator a) (pre @ t) = Some g"
    by blast
  with skip show ?case by simp
qed

lemma contains_suffix: "contains t p \<Longrightarrow> contains (pre @ t) p"
proof -
  assume "contains t p"
  then obtain a b where "t = a @ p @ b"
    unfolding contains_def by blast
  then have "pre @ t = (pre @ a) @ p @ b"
    by simp
  then show ?thesis
    unfolding contains_def by blast
qed

lemma search_lines_needs:
  assumes "\<And>t. matches (m t) \<Longrightarrow> contains t p" "\<not> contains s p"
  shows "search_lines m ls s = None"
proof (rule ccontr)
  assume "search_lines m ls s \<noteq> None"
  then have "matches (search_lines m ls s)"
    by (simp add: matches_def)
  then obtain pre t where "s = pre @ t" "matches (m t)"
    unfolding matches_search_lines by blast
  with assms(1) [of t] contains_suffix [of t p pre] assms(2) show False
    by simp
qed

lemma search_needs:
  assumes "\<And>t. matches (m t) \<Longrightarrow> contains t p" "\<not> contains s p"
  shows "search m s = None"
proof (rule ccontr)
  assume "search m s \<noteq> None"
  then have "matches (search m s)"
    by (simp add: matches_def)
  then obtain pre t where "s = pre @ t" "matches (m t)"
    unfolding matches_search by blast
  with assms(1) [of t] contains_suffix [of t p pre] assms(2) show False
    by simp
qed

lemma dropWhile_keeps: "x \<in> set s \<Longrightarrow> \<not> P x \<Longrightarrow> x \<in> set (dropWhile P s)"
  by (induction s) auto

lemma trim_not_blank: "x \<in> set s \<Longrightarrow> \<not> is_space x \<Longrightarrow> trim s \<noteq> []"
proof -
  assume x: "x \<in> set s" "\<not> is_space x"
  then have "x \<in> set (dropWhile is_space s)"
    by (rule dropWhile_keeps)
  with x(2) show ?thesis
    by (auto simp: trim_def)
qed

section \<open>Properties of the extension resolver\<close>

lemma css_rule_iff: "matches (css_rule s) \<longleftrightarrow> has_css_selector s"
proof
  assume "matches (css_rule s)"
  then obtain pre t where s: "s = pre @ t"
    and t: "matches (one (\<lambda>c. c = CHR ''.'' \<or> c = CHR ''#'')
       (plus (\<lambda>c. is_word c \<or> c = CHR ''-'') (\<lambda>_.
         star is_space (\<lambda>_. lit ''{'' (\<lambda>_. Some ())))) t)"
    unfolding css_rule_def matches_search by blast
  from t obtain sel r where r: "t = sel # r" "sel = CHR ''.'' \<or> sel = CHR ''#''"
    "matches (plus (\<lambda>c. is_word c \<or> c = CHR ''-'') (\<lambda>_.
         star is_space (\<lambda>_. lit ''{'' (\<lambda>_. Some ()))) r)"
    unfolding matches_one by blast
  from r(3) obtain ident r1 where i: "r = ident @ r1" "ident \<noteq> []"
    "\<forall>c \<in> set ident. is_word c \<or> c = CHR ''-''"
    "matches (star is_space (\<lambda>_. lit ''{'' (\<lambda>_. Some ())) r1)"
    unfolding matches_plus by blast
  from i(4) obtain ws r2 where w: "r1 = ws @ r2" "\<forall>c \<in> set ws. is_space c"
    "matches (lit ''{'' (\<lambda>_. Some ()) r2)"
    unfolding matches_star by blast
  from w(3) obtain post where p: "r2 = ''{'' @ post"
    unfolding matches_lit by blast
  have "s = pre @ sel # ident @ ws @ ''{'' @ post"
    by (simp add: s r(1) i(1) w(1) p)
  with r(2) i(2,3) w(2) show "has_css_selector s"
    unfolding has_css_selector_def by blast
next
  assume "has_css_selector s"
  then obtain pre sel ident ws post where
    s: "s = pre @ sel # ident @ ws @ ''{'' @ post" and sel: "sel = CHR ''.'' \<or> sel = CHR ''#''"
    and ident: "ident \<noteq> []" "\<forall>c \<in> set ident. is_word c \<or> c = CHR ''-''"
    and ws: "\<forall>c \<in> set ws. is_space c"
    unfolding has_css_selector_def by blast
  have "matches (lit ''{'' (\<lambda>_. Some ()) (''{'' @ post))"
    unfolding matches_lit by (simp add: matches_Some)
  with ws have "matches (star is_space (\<lambda>_. lit ''{'' (\<lambda>_. Some ())) (ws @ ''{'' @ post))"
    unfolding matches_star by blast
  with ident have "matches (plus (\<lambda>c. is_word c \<or> c = CHR ''-'') (\<lambda>_.
         star is_space (\<lambda>_. lit ''{'' (\<lambda>_. Some ()))) (ident @ ws @ ''{'' @ post))"
    unfolding matches_plus by blast
  with sel have "matches (one (\<lambda>c. c = CHR ''.'' \<or> c = CHR ''#'')
       (plus (\<lambda>c. is_word c \<or> c = CHR ''-'') (\<lambda>_.
         star is_space (\<lambda>_. lit ''{'' (\<lambda>_. Some ())))) (sel # ident @ ws @ ''{'' @ post))"
    unfolding matches_one by blast
  then show "matches (css_rule s)"
    unfolding css_rule_def matches_search s by blast
qed

lemma leading_tag_iff: "matches (leading_tag s) \<longleftrightarrow> starts_with_tag s"
proof
  assume "matches (leading_tag s)"
  then obtain ws r where w: "s = ws @ r" "\<forall>c \<in> set ws. is_space c"
    "matches (lit ''<'' (plus is_word (\<lambda>_ _. Some ())) r)"
    unfolding leading_tag_def matches_star by blast
  from w(3) obtain r1 where r1: "r = ''<'' @ r1" "matches (plus is_word (\<lambda>_ _. Some ()) r1)"
    unfolding matches_lit by blast
  from r1(2) obtain tag post where t: "r1 = tag @ post" "tag \<noteq> []" "\<forall>c \<in> set tag. is_word c"
    unfolding matches_plus by blast
  have "s = ws @ ''<'' @ tag @ post"
    by (simp add: w(1) r1(1) t(1))
  with w(2) t(2,3) show "starts_with_tag s"
    unfolding starts_with_tag_def by blast
next
  assume "starts_with_tag s"
  then obtain ws tag post where s: "s = ws @ ''<'' @ tag @ post"
    and ws: "\<forall>c \<in> set ws. is_space c" and tag: "tag \<noteq> []" "\<forall>c \<in> set tag. is_word c"
    unfolding starts_with_tag_def by blast
  have "matches ((\<lambda>_ _. Some ()) tag post)"
    by (rule matches_Some)
  with tag have "matches (plus is_word (\<lambda>_ _. Some ()) (tag @ post))"
    unfolding matches_plus by (intro exI [of _ tag] exI [of _ post]) simp
  then have "matches (lit ''<'' (plus is_word (\<lambda>_ _. Some ())) (''<'' @ tag @ post))"
    unfolding matches_lit by (intro exI [of _ "tag @ post"]) simp
  with ws show "matches (leading_tag s)"
    unfolding leading_tag_def matches_star s
    by (intro exI [of _ ws] exI [of _ "''<'' @ tag @ post"]) simp
qed


lemma css_selector_brace: "has_css_selector s \<Longrightarrow> contains s ''{''"
proof -
  assume "has_css_selector s"
  then obtain pre sel ident ws post where "s = pre @ sel # ident @ ws @ ''{'' @ post"
    unfolding has_css_selector_def by blast
  then have "s = (pre @ sel # ident @ ws) @ ''{'' @ post"
    by simp
  then show ?thesis
    unfolding contains_def by blast
qed

text \<open>
  C8, amended. Content sniffing applies the rules of the spec in their order, first match
  first, with one change: the rule for PHP asks whether the content contains
  \<^verbatim>\<open><?php\<close>, not whether it starts with it. (``A line matching a CSS selector'' is
  read as: the content contains a match of the pattern; ``starts with a tag'' allows white
  space before the \<^verbatim>\<open><\<close>.)
\<close>

theorem content_sniffing_rules:
  "inferExtensionFromContent s = contentSniffing (\<lambda>s. contains s ''<?php'') s"
proof -
  have "(contains s ''@media'' \<or> contains s ''{'') \<and> has_css_selector s \<longleftrightarrow> has_css_selector s"
    using css_selector_brace [of s] by blast
  then show ?thesis
    unfolding inferExtensionFromContent_def contentSniffing_def
      str_includes_contains css_rule_iff leading_tag_iff
    by presburger
qed

theorem content_sniffing_rules_witness:
  "contentSniffing (\<lambda>s. contains s ''<?php'') ''.a {}'' = ''.css'' \<and>
   contentSniffing (\<lambda>s. contains s ''<?php'') '' <p>'' = ''.html''"
  unfolding content_sniffing_rules [symmetric] by code_simp

text \<open>
  C8 fails as stated: the content \<^verbatim>\<open>x<?php\<close> does not start with \<^verbatim>\<open><?php\<close>, so the
  rules of the spec end at the default \<^verbatim>\<open>.js\<close>, but the code answers \<^verbatim>\<open>.php\<close>.
\<close>

theorem php_counterexample:
  "inferExtensionFromContent ''x<?php'' = ''.php'' \<and>
   contentSniffing (prefix ''<?php'') ''x<?php'' = ''.js''"
proof -
  have "contentSniffing (prefix ''<?php'') ''x<?php'' = ''.js''"
    unfolding contentSniffing_def str_includes_contains [symmetric] css_rule_iff [symmetric]
      leading_tag_iff [symmetric]
    by code_simp
  moreover have "inferExtensionFromContent ''x<?php'' = ''.php''"
    by code_simp
  ultimately show ?thesis by simp
qed

section \<open>Properties of the fallback\<close>

lemma plainCodePattern_iff:
  "matches (plainCodePattern t) \<longleftrightarrow>
   (\<exists>pre c post. t = pre @ c # post \<and> line_start_after True pre \<and> \<not> markdown_marker c)"
  unfolding plainCodePattern_def matches_search_lines matches_one markdown_marker_def
  by (simp add: matches_Some) blast












section \<open>Properties of extraction\<close>

text \<open>
  C1 does not hold of the code. The replacement that is to ensure that no path starts
  with \<^verbatim>\<open>/\<close> or \<^verbatim>\<open>./\<close> removes one such prefix only, and nothing checks the path
  afterwards: the explicit path \<^verbatim>\<open>//x\<close> gives the artifact path \<^verbatim>\<open>/x\<close>, and the
  explicit path \<^verbatim>\<open>/\<close> gives the empty artifact path.
\<close>

theorem leading_slash_survives:
  "parseCodeFiles ''```js://x\<newline>y\<newline>```'' =
     [\<lparr>filePath = ''/x'', content = ''y\<newline>''\<rparr>] \<and>
   parseCodeFiles ''```js:/\<newline>y\<newline>```'' = [\<lparr>filePath = [], content = ''y\<newline>''\<rparr>]"
  by code_simp

lemma parseBlocks_scan: "parseBlocks md fs i = fs @ emit i (scanBlocks md)"
proof (induction md fs i rule: parseBlocks.induct)
  case (1 md fs i)
  show ?case
  proof (cases "search codeBlockPattern md")
    case None
    then show ?thesis
      by (simp add: parseBlocks.simps [of md] scanBlocks.simps [of md])
  next
    case (Some m)
    obtain g1 g2 g3 rest where m: "m = ((g1, g2, g3), rest)"
      by (metis prod.collapse)
    show ?thesis
    proof (cases "trim g3 \<noteq> []")
      case True
      with 1(1) [OF Some [unfolded m] refl refl refl refl refl refl refl True] Some m show ?thesis
        by (simp add: parseBlocks.simps [of md] scanBlocks.simps [of md] Let_def)
    next
      case False
      with 1(2) [OF Some [unfolded m] refl refl refl refl refl refl refl False] Some m show ?thesis
        by (simp add: parseBlocks.simps [of md] scanBlocks.simps [of md] Let_def)
    qed
  qed
qed


lemma stripLeadingSlash_other:
  "c \<noteq> CHR ''.'' \<Longrightarrow> c \<noteq> CHR ''/'' \<Longrightarrow> stripLeadingSlash (c # s) = c # s"
  by (simp add: stripLeadingSlash_def leadingSlash_def opt_def lit_def)

lemma stripLeadingSlash_indexedName: "stripLeadingSlash (indexedName i ext) = indexedName i ext"
  by (simp add: indexedName_def stripLeadingSlash_other)

lemma resolvePath_inferred:
  "commentPath commentPatterns b = [] \<Longrightarrow>
   resolvePath l [] b i = indexedName i (blockExtension l b)"
  by (simp add: resolvePath_def stripLeadingSlash_indexedName blockExtension_def)

lemma emit_named:
  assumes "\<forall>(l, e, b) \<in> set bs. trim b \<noteq> [] \<longrightarrow> e = [] \<and> commentPath commentPatterns b = []"
  shows "emit i bs =
     map (\<lambda>(j, (l, e, b)). \<lparr>filePath = indexedName j (blockExtension l b), content = b\<rparr>)
       (zip [i..<i + length (filter (\<lambda>(l, e, b). trim b \<noteq> []) bs)]
            (filter (\<lambda>(l, e, b). trim b \<noteq> []) bs))"
  using assms
proof (induction bs arbitrary: i)
  case Nil
  show ?case by simp
next
  case (Cons x bs)
  obtain l e b where x: "x = (l, e, b)"
    by (cases x) 
  from Cons.prems have rest: "\<forall>(l, e, b) \<in> set bs. trim b \<noteq> [] \<longrightarrow> e = [] \<and> commentPath commentPatterns b = []"
    by simp
  show ?case
  proof (cases "trim b \<noteq> []")
    case True
    with Cons.prems x have e: "e = []" and c: "commentPath commentPatterns b = []"
      by auto
    have "[i..<i + Suc n] = i # [Suc i..<Suc i + n]" for n
      by (simp add: upt_conv_Cons)
    with True x e show ?thesis
      using Cons.IH [OF rest, of "Suc i"] resolvePath_inferred [OF c, of l i]
      by simp
  next
    case False
    with x show ?thesis
      using Cons.IH [OF rest, of i] by simp
  qed
qed

lemma unknown_tag_extension:
  assumes "map_of languageMap (toLowerCase l) = None"
    and "toLowerCase l \<noteq> ''constructor''" "toLowerCase l \<noteq> ''__proto__''"
  shows "getExtensionFromLanguage l = ''.txt''"
  using assms by (simp add: getExtensionFromLanguage_def map_add_def inheritedMap_def)

text \<open>
  C2, amended. Let the accepted blocks be the fenced blocks whose body is not blank, in
  document order, and let there be at least one. If none of them has an explicit
  \<^verbatim>\<open>:path\<close> annotation, none has a \<^verbatim>\<open>File:\<close> comment that declares a path, and none
  has a language tag of the table (nor, in any letter case, one of the two tags
  \<^verbatim>\<open>constructor\<close> and \<^verbatim>\<open>__proto__\<close>, about which nothing is said), then extraction
  yields exactly one artifact per accepted block, in order, holding the body and named
  \<^verbatim>\<open>main<ext>\<close>, \<^verbatim>\<open>file2<ext>\<close>, \<^verbatim>\<open>file3<ext>\<close>, ...: the index counts the accepted
  blocks before it, so blank blocks leave no gap. The extension is the one sniffed from
  the content for a block without tag, and \<^verbatim>\<open>.txt\<close> for a block with a tag.
\<close>

theorem default_names_gap_free:
  assumes "blocks = filter (\<lambda>(l, e, b). trim b \<noteq> []) (scanBlocks codeMarkdown)"
    and "blocks \<noteq> []"
    and "\<forall>(l, e, b) \<in> set blocks.
           e = [] \<and> commentPath commentPatterns b = [] \<and>
           map_of languageMap (toLowerCase l) = None \<and>
           toLowerCase l \<noteq> ''constructor'' \<and> toLowerCase l \<noteq> ''__proto__''"
  shows "parseCodeFiles codeMarkdown =
     map (\<lambda>(i, (l, e, b)).
           \<lparr>filePath = (if i = 0 then ''main'' else ''file'' @ string_of_nat (i + 1)) @
              (if l = [] then inferExtensionFromContent b else ''.txt''),
            content = b\<rparr>)
       (zip [0..<length blocks] blocks)"
proof -
  have "\<forall>(l, e, b) \<in> set (scanBlocks codeMarkdown).
      trim b \<noteq> [] \<longrightarrow> e = [] \<and> commentPath commentPatterns b = []"
    using assms(3) unfolding assms(1) by auto
  from emit_named [OF this, of 0]
  have files: "parseBlocks codeMarkdown [] 0 =
     map (\<lambda>(j, (l, e, b)). \<lparr>filePath = indexedName j (blockExtension l b), content = b\<rparr>)
       (zip [0..<length blocks] blocks)"
    by (simp add: parseBlocks_scan assms(1))
  with assms(2) have "parseBlocks codeMarkdown [] 0 \<noteq> []"
    by (cases blocks) (simp_all add: upt_conv_Cons)
  then have "parseCodeFiles codeMarkdown = parseBlocks codeMarkdown [] 0"
    by (simp add: parseCodeFiles_def)
  also note files
  also have "map (\<lambda>(j, (l, e, b)). \<lparr>filePath = indexedName j (blockExtension l b), content = b\<rparr>)
       (zip [0..<length blocks] blocks) =
     map (\<lambda>(i, (l, e, b)).
           \<lparr>filePath = (if i = 0 then ''main'' else ''file'' @ string_of_nat (i + 1)) @
              (if l = [] then inferExtensionFromContent b else ''.txt''),
            content = b\<rparr>)
       (zip [0..<length blocks] blocks)"
  proof (rule map_cong [OF refl])
    fix x
    assume x: "x \<in> set (zip [0..<length blocks] blocks)"
    obtain i l e b where xe: "x = (i, (l, e, b))"
      by (metis prod.collapse)
    with x have "(l, e, b) \<in> set blocks"
      by (auto dest: set_zip_rightD)
    with assms(3) have "map_of languageMap (toLowerCase l) = None"
      "toLowerCase l \<noteq> ''constructor''" "toLowerCase l \<noteq> ''__proto__''"
      by auto
    then have "getExtensionFromLanguage l = ''.txt''"
      by (rule unknown_tag_extension)
    then have "blockExtension l b = (if l = [] then inferExtensionFromContent b else ''.txt'')"
      by (simp add: blockExtension_def)
    then show "(case x of (j, l, e, b) \<Rightarrow>
          \<lparr>filePath = indexedName j (blockExtension l b), content = b\<rparr>) =
        (case x of (i, l, e, b) \<Rightarrow>
          \<lparr>filePath = (if i = 0 then ''main'' else ''file'' @ string_of_nat (i + 1)) @
              (if l = [] then inferExtensionFromContent b else ''.txt''),
            content = b\<rparr>)"
      by (simp add: xe indexedName_def)
  qed
  finally show ?thesis .
qed

theorem default_names_gap_free_witness:
  "parseCodeFiles ''```\<newline>a\<newline>```\<newline>```\<newline> \<newline>```\<newline>```Foo\<newline>b\<newline>```\<newline>```\<newline><p>\<newline>```'' =
     [\<lparr>filePath = ''main.js'', content = ''a\<newline>''\<rparr>,
      \<lparr>filePath = ''file2.txt'', content = ''b\<newline>''\<rparr>,
      \<lparr>filePath = ''file3.html'', content = ''<p>\<newline>''\<rparr>]"
proof -
  let ?md = "''```\<newline>a\<newline>```\<newline>```\<newline> \<newline>```\<newline>```Foo\<newline>b\<newline>```\<newline>```\<newline><p>\<newline>```''"
  let ?blocks = "[([], [], ''a\<newline>''), (''Foo'', [], ''b\<newline>''), ([], [], ''<p>\<newline>'')]"
  have h1: "?blocks = filter (\<lambda>(l, e, b). trim b \<noteq> []) (scanBlocks ?md)"
    by code_simp
  have h2: "?blocks \<noteq> ([] :: (string \<times> string \<times> string) list)"
    by simp
  have h3: "\<forall>(l, e, b) \<in> set ?blocks.
      e = [] \<and> commentPath commentPatterns b = [] \<and>
      map_of languageMap (toLowerCase l) = None \<and>
      toLowerCase l \<noteq> ''constructor'' \<and> toLowerCase l \<noteq> ''__proto__''"
    by code_simp
  show ?thesis
    unfolding default_names_gap_free [OF h1 h2 h3] by code_simp
qed

text \<open>
  C2 fails as stated. A block without annotation and without language tag whose body
  declares a path in a comment is named by that path, not \<^verbatim>\<open>main<ext>\<close>; and a text
  with no fenced block at all can still yield one artifact, through the fallback.
\<close>

theorem comment_names_counterexample:
  "scanBlocks ''```\<newline>// File: a.js\<newline>x\<newline>```'' = [([], [], ''// File: a.js\<newline>x\<newline>'')] \<and>
   parseCodeFiles ''```\<newline>// File: a.js\<newline>x\<newline>```'' =
     [\<lparr>filePath = ''a.js'', content = ''// File: a.js\<newline>x\<newline>''\<rparr>] \<and>
   scanBlocks ''x = 1'' = [] \<and>
   parseCodeFiles ''x = 1'' = [\<lparr>filePath = ''main.js'', content = ''x = 1''\<rparr>]"
  by code_simp

text \<open>
  The two tags left out above are keys that the language table, an object literal,
  inherits: the look-up finds the inherited value in place of an extension, and the name
  is not of the form \<^verbatim>\<open>main<ext>\<close>.
\<close>

lemma inherited_key_name:
  "parseCodeFiles ''```Constructor\<newline>b\<newline>```'' =
     [\<lparr>filePath = ''mainfunction Object() { [native code] }'', content = ''b\<newline>''\<rparr>]"
  by code_simp

text \<open>
  The other half of the data-model invariant does hold: no artifact has empty content,
  whether it comes from a fenced block or from the fallback.
\<close>

lemma emit_content: "f \<in> set (emit i bs) \<Longrightarrow> trim (content f) \<noteq> []"
proof (induction bs arbitrary: i)
  case Nil
  then show ?case by simp
next
  case (Cons x bs)
  obtain l e b where x: "x = (l, e, b)"
    by (cases x)
  with Cons show ?case
    by (auto split: if_splits)
qed

lemma looks_like_code_nonempty: "looks_like_code t \<Longrightarrow> t \<noteq> []"
  by (auto simp: looks_like_code_def contains_def)

lemma artifact_content_nonempty:
  assumes "f \<in> set (parseCodeFiles md)"
  shows "content f \<noteq> []"
proof (cases "parseBlocks md [] 0 = []")
  case True
  with assms have "content f = trim (stripHeadings True md) \<and>
      looks_like_code (trim (stripHeadings True md))"
    by (auto simp: parseCodeFiles_def Let_def looks_like_code_def plainCodePattern_iff
        str_includes_contains split: if_splits)
  then show ?thesis
    by (auto dest: looks_like_code_nonempty)
next
  case False
  with assms have "f \<in> set (emit 0 (scanBlocks md))"
    by (simp add: parseCodeFiles_def parseBlocks_scan)
  then have "trim (content f) \<noteq> []"
    by (rule emit_content)
  then show ?thesis
    by (auto simp: trim_def)
qed

section \<open>Properties of the path resolver\<close>

text \<open>
  What the comment patterns capture on comments written in the usual way, and what they
  need. A body without the text \<^verbatim>\<open>File:\<close> declares no path. As the code stands, a
  \<^verbatim>\<open>// File:\<close> comment on the first line that has \<^verbatim>\<open>//\<close> at all decides the path even
  when comments of the other forms stand before it.
\<close>

lemma file_decl_capture:
  assumes "spaces ws1" "spaces ws2" "plain_path p" "rest = [] \<or> hd rest = nl"
  shows "star is_space (\<lambda>_. lit ''File:'' (star is_space (\<lambda>_.
       plus (\<lambda>c. c \<noteq> nl) (\<lambda>g _. Some g)))) (ws1 @ ''File:'' @ ws2 @ p @ rest) = Some p"
proof -
  from assms(3,4) have 1: "plus (\<lambda>c. c \<noteq> nl) (\<lambda>g _. Some g) (p @ rest) = Some p"
    by (subst plus_greedy) (auto simp: plain_path_def)
  from assms(3) have "hd (p @ rest) = hd p" "p @ rest \<noteq> []"
    by (auto simp: plain_path_def)
  with assms(2,3) 1
  have 2: "star is_space (\<lambda>_. plus (\<lambda>c. c \<noteq> nl) (\<lambda>g _. Some g)) (ws2 @ p @ rest) = Some p"
    by (subst star_greedy) (auto simp: plain_path_def spaces_def)
  then have 3: "lit ''File:'' (star is_space (\<lambda>_. plus (\<lambda>c. c \<noteq> nl) (\<lambda>g _. Some g)))
      (''File:'' @ ws2 @ p @ rest) = Some p"
    by (simp only: lit_append)
  have "\<not> is_space (hd (''File:'' @ ws2 @ p @ rest))"
    by (simp add: is_space_def)
  with assms(1) 3 show ?thesis
    by (subst star_greedy) (auto simp: spaces_def)
qed

lemma slashComment_capture:
  assumes "spaces ws1" "spaces ws2" "plain_path p" "rest = [] \<or> hd rest = nl"
  shows "slashComment (''//'' @ ws1 @ ''File:'' @ ws2 @ p @ rest) = Some p"
  unfolding slashComment_def lit_append by (rule file_decl_capture [OF assms])

lemma hashComment_capture:
  assumes "spaces ws1" "spaces ws2" "plain_path p" "rest = [] \<or> hd rest = nl"
  shows "hashComment (''#'' @ ws1 @ ''File:'' @ ws2 @ p @ rest) = Some p"
  unfolding hashComment_def lit_append by (rule file_decl_capture [OF assms])

lemma blockComment_capture:
  assumes "spaces ws1" "spaces ws2" "p \<noteq> []" "\<not> is_space (hd p)" "CHR ''*'' \<notin> set p"
  shows "blockComment (''/*'' @ ws1 @ ''File:'' @ ws2 @ p @ ''*/'' @ rest) = Some p"
proof -
  let ?tail = "\<lambda>g. lit ''*/'' (\<lambda>_. Some g)"
  have 0: "?tail p (''*/'' @ rest) = Some p"
    by (simp only: lit_append)
  have "plus (\<lambda>c. c \<noteq> CHR ''*'') ?tail (p @ ''*/'' @ rest) = ?tail p (''*/'' @ rest)"
    using assms(3,5) 0 by (intro plus_greedy) auto
  with 0 have 1: "plus (\<lambda>c. c \<noteq> CHR ''*'') ?tail (p @ ''*/'' @ rest) = Some p"
    by simp
  have 2: "star is_space (\<lambda>_. plus (\<lambda>c. c \<noteq> CHR ''*'') ?tail) (ws2 @ p @ ''*/'' @ rest) = Some p"
    using assms(2) _ _ 1 by (rule star_spaces) (use assms(3,4) in simp_all)
  have 3: "lit ''File:'' (star is_space (\<lambda>_. plus (\<lambda>c. c \<noteq> CHR ''*'') ?tail))
      (''File:'' @ ws2 @ p @ ''*/'' @ rest) = Some p"
    unfolding lit_append by (rule 2)
  have "star is_space (\<lambda>_. lit ''File:'' (star is_space (\<lambda>_. plus (\<lambda>c. c \<noteq> CHR ''*'') ?tail)))
      (ws1 @ ''File:'' @ ws2 @ p @ ''*/'' @ rest) = Some p"
    using assms(1) _ _ 3 by (rule star_spaces) (simp_all add: is_space_def)
  then show ?thesis
    unfolding blockComment_def lit_append .
qed

lemma file_marker_needed:
  assumes "matches (lit marker (star is_space (\<lambda>_. lit ''File:'' k)) t)"
  shows "contains t ''File:''"
proof -
  from assms obtain r where r: "t = marker @ r" "matches (star is_space (\<lambda>_. lit ''File:'' k) r)"
    unfolding matches_lit by blast
  from r(2) obtain g r1 where g: "r = g @ r1" "matches (lit ''File:'' k r1)"
    unfolding matches_star by blast
  from g(2) obtain r2 where "r1 = ''File:'' @ r2"
    unfolding matches_lit by blast
  with r(1) g(1) have "t = (marker @ g) @ ''File:'' @ r2"
    by simp
  then show ?thesis
    unfolding contains_def by blast
qed

lemma no_file_marker:
  assumes "\<not> contains b ''File:''"
  shows "commentPath commentPatterns b = []"
proof -
  have "search_lines slashComment True b = None"
    using assms by (intro search_lines_needs [of _ "''File:''"])
      (auto simp: slashComment_def dest: file_marker_needed)
  moreover have "search_lines hashComment True b = None"
    using assms by (intro search_lines_needs [of _ "''File:''"])
      (auto simp: hashComment_def dest: file_marker_needed)
  moreover have "search_lines htmlComment True b = None"
    using assms by (intro search_lines_needs [of _ "''File:''"])
      (auto simp: htmlComment_def dest: file_marker_needed)
  moreover have "search blockComment b = None"
    using assms by (intro search_needs [of _ "''File:''"])
      (auto simp: blockComment_def dest: file_marker_needed)
  ultimately show ?thesis
    by (simp add: commentPatterns_def)
qed

lemma slash_comment_decides:
  assumes body: "body = pre @ ''//'' @ ws1 @ ''File:'' @ ws2 @ p @ rest"
    and pre: "line_start_after True pre" "\<not> contains pre ''//''"
    and form: "spaces ws1" "spaces ws2" "plain_path p" "rest = [] \<or> hd rest = nl"
  shows "resolvePath language [] body i = stripLeadingSlash (trim p)"
proof -
  let ?t = "''//'' @ ws1 @ ''File:'' @ ws2 @ p @ rest"
  have cap: "slashComment ?t = Some p"
    by (rule slashComment_capture [OF form])
  have none: "slashComment (pre2 @ ?t) = None"
    if "pre = pre1 @ pre2" "pre2 \<noteq> []" for pre1 pre2
  proof -
    have "\<not> prefix ''//'' (pre2 @ ?t)"
    proof
      assume p: "prefix ''//'' (pre2 @ ?t)"
      from that(2) obtain c cs where c: "pre2 = c # cs"
        by (cases pre2) auto
      show False
      proof (cases cs)
        case Nil
        with p c have "c = CHR ''/''"
          by simp
        with that(1) c Nil have "last pre = CHR ''/''" "pre \<noteq> []"
          by simp_all
        with pre(1) show False
          by (simp add: line_start_after_def is_line_terminator_def)
      next
        case (Cons d ds)
        with p c have "pre2 = ''//'' @ ds"
          by auto
        with that(1) have "pre = pre1 @ ''//'' @ ds"
          by simp
        with pre(2) show False
          unfolding contains_def by blast
      qed
    qed
    then show ?thesis
      by (simp add: slashComment_def lit_def)
  qed
  have "search_lines slashComment True (pre @ ?t) = Some p"
    using cap pre(1) none by (intro search_lines_first) blast+
  then have first: "search_lines slashComment True body = Some p"
    by (simp only: body)
  from form(3) have p2: "p \<noteq> []" and "\<not> is_space (hd p)"
    by (simp_all add: plain_path_def)
  then have p1: "trim p \<noteq> []"
    using trim_not_blank [of "hd p" p] by simp
  have "CHR ''/'' \<in> set body"
    by (simp add: body)
  then have "trim body \<noteq> []"
    by (rule trim_not_blank) (simp add: is_space_def)
  moreover have "commentPath commentPatterns body = trim p"
    using first p2 by (simp add: commentPatterns_def)
  ultimately show ?thesis
    using p1 by (simp add: resolvePath_def)
qed

text \<open>
  Two parts of the rule hold for every block: an explicit path wins over any comment in
  the body, and a path found by the comment patterns wins over the name derived from the
  language tag or the content.
\<close>

lemma explicit_path_wins:
  "explicitPath \<noteq> [] \<Longrightarrow>
   resolvePath language explicitPath body i = stripLeadingSlash explicitPath"
  by (simp add: resolvePath_def)

lemma comment_path_wins:
  "trim body \<noteq> [] \<Longrightarrow> commentPath commentPatterns body = p \<Longrightarrow> p \<noteq> [] \<Longrightarrow>
   resolvePath language [] body i = stripLeadingSlash p"
  by (simp add: resolvePath_def)

text \<open>
  C4 does not hold of the code. The source looks for the path ``in comments at the
  start of code'', but the loop over the patterns ends at the first pattern with a
  match anywhere in the body, not at the first comment. In the body below the comment
  \<^verbatim>\<open># File: a.py\<close> stands on the first line, is recognised by its pattern and, alone,
  names the file; with the comment \<^verbatim>\<open>// File: b.js\<close> on the line after it, the file is
  named \<^verbatim>\<open>b.js\<close>. The fourth pattern, unlike the other three, is not tied to a line
  start: a \<^verbatim>\<open>/* File: */\<close> comment in the middle of a line names the file too.
\<close>

theorem first_comment_overridden:
  "hashComment ''# File: a.py\<newline>// File: b.js\<newline>'' = Some ''a.py'' \<and>
   parseCodeFiles ''```\<newline># File: a.py\<newline>```'' =
     [\<lparr>filePath = ''a.py'', content = ''# File: a.py\<newline>''\<rparr>] \<and>
   parseCodeFiles ''```\<newline># File: a.py\<newline>// File: b.js\<newline>```'' =
     [\<lparr>filePath = ''b.js'', content = ''# File: a.py\<newline>// File: b.js\<newline>''\<rparr>] \<and>
   parseCodeFiles ''```\<newline>x = 1; /* File: c.c */\<newline>```'' =
     [\<lparr>filePath = ''c.c'', content = ''x = 1; /* File: c.c */\<newline>''\<rparr>]"
  by code_simp

section \<open>Properties of the project writer\<close>

text \<open>
  C3. When extraction yields no file artifact, \<open>writeFiles\<close> fails with the
  \<open>NoFilesFound\<close> error and leaves the file system as it was: the error comes before any
  directory is created and before any file is written.
\<close>

theorem writeFiles_no_files:
  "parseCodeFiles codeMarkdown = [] \<Longrightarrow>
   writeFiles basePath now task codeMarkdown w = (Inl NoFilesFound, w)"
  by (simp add: writeFiles_def)

theorem writeFiles_no_files_witness:
  "parseCodeFiles ''* item'' = [] \<and>
   writeFiles ''/work'' 0 ''demo'' ''* item'' \<lparr>cwd = ''/work'', nodes = Map.empty\<rparr> =
     (Inl NoFilesFound, \<lparr>cwd = ''/work'', nodes = Map.empty\<rparr>)"
proof -
  have h: "parseCodeFiles ''* item'' = []"
    by code_simp
  from writeFiles_no_files [OF h] h show ?thesis
    by simp
qed

text \<open>
  C6 fails as stated: for the text \<open>hello world\<close>, which has no fenced block, the project
  folder is created and \<open>main.js\<close> is written into it.
\<close>

theorem hello_world_counterexample:
  "fst (writeFiles ''/work'' 0 ''demo'' ''hello world''
          \<lparr>cwd = ''/work'', nodes = [''/work'' \<mapsto> Dir]\<rparr>) =
     Inr \<lparr>folderPath = ''/work/demo'', files = [''main.js'']\<rparr> \<and>
   nodes (snd (writeFiles ''/work'' 0 ''demo'' ''hello world''
          \<lparr>cwd = ''/work'', nodes = [''/work'' \<mapsto> Dir]\<rparr>)) ''/work/demo'' = Some Dir \<and>
   nodes (snd (writeFiles ''/work'' 0 ''demo'' ''hello world''
          \<lparr>cwd = ''/work'', nodes = [''/work'' \<mapsto> Dir]\<rparr>)) ''/work/demo/main.js'' =
     Some (File ''hello world'')"
  by code_simp

lemma hello_world_parsed:
  "parseCodeFiles ''hello world'' = [\<lparr>filePath = ''main.js'', content = ''hello world''\<rparr>]"
  by code_simp

lemma ensureDirectory_error: "ensureDirectory d w = (Inl e, w') \<Longrightarrow> e \<noteq> NoFilesFound"
  by (auto simp: ensureDirectory_def split: prod.splits sum.splits if_splits)

lemma writeEach_error: "writeEach d fs acc w = (Inl e, w') \<Longrightarrow> e \<noteq> NoFilesFound"
proof (induction fs arbitrary: acc w)
  case Nil
  then show ?case by simp
next
  case (Cons f fs)
  then show ?case
    by (auto simp: Let_def split: prod.splits sum.splits if_splits dest: ensureDirectory_error)
qed

lemma writeFilesToFolder_error:
  "writeFilesToFolder d fs w = (Inl e, w') \<Longrightarrow> e \<noteq> NoFilesFound"
  by (auto simp: writeFilesToFolder_def split: prod.splits sum.splits dest: writeEach_error)

lemma writeFiles_error:
  assumes "parseCodeFiles md \<noteq> []"
  shows "fst (writeFiles basePath now task md w) \<noteq> Inl NoFilesFound"
proof
  assume "fst (writeFiles basePath now task md w) = Inl NoFilesFound"
  then obtain w' where "writeFiles basePath now task md w = (Inl NoFilesFound, w')"
    by (cases "writeFiles basePath now task md w") simp
  with assms show False
    by (auto simp: writeFiles_def Let_def split: prod.splits sum.splits node.splits
        dest: ensureDirectory_error writeFilesToFolder_error)
qed

text \<open>
  C6, amended. The text \<open>hello world\<close> begins with a character that is none of
  \<^verbatim>\<open>#\<close>, \<^verbatim>\<open>*\<close>, backtick, \<^verbatim>\<open>[\<close> and \<^verbatim>\<open>]\<close>, so the fallback takes it for code:
  extraction yields the single artifact \<open>main.js\<close> holding the text, and \<open>writeFiles\<close>
  does not fail with \<open>NoFilesFound\<close>, whatever the task, base path, time and file system.
\<close>

theorem hello_world_is_code:
  "parseCodeFiles ''hello world'' = [\<lparr>filePath = ''main.js'', content = ''hello world''\<rparr>] \<and>
   fst (writeFiles basePath now task ''hello world'' w) \<noteq> Inl NoFilesFound"
  using hello_world_parsed writeFiles_error [of "''hello world''"] by simp

lemma stripLeadingSlash_parent: "stripLeadingSlash (''../'' @ p) = ''../'' @ p"
  by (simp add: stripLeadingSlash_def leadingSlash_def opt_def lit_def)

lemma parent_segment_written:
  "parseCodeFiles ''```js:../x.js\<newline>A\<newline>```'' =
     [\<lparr>filePath = ''../x.js'', content = ''A\<newline>''\<rparr>] \<and>
   fst (writeFiles ''/work'' 0 ''demo'' ''```js:../x.js\<newline>A\<newline>```''
          \<lparr>cwd = ''/work'', nodes = [''/work'' \<mapsto> Dir]\<rparr>) =
     Inr \<lparr>folderPath = ''/work/demo'', files = [''../x.js'']\<rparr> \<and>
   nodes (snd (writeFiles ''/work'' 0 ''demo'' ''```js:../x.js\<newline>A\<newline>```''
          \<lparr>cwd = ''/work'', nodes = [''/work'' \<mapsto> Dir]\<rparr>)) ''/work/x.js'' =
     Some (File ''A\<newline>'') \<and>
   \<not> prefix ''/work/demo/'' ''/work/x.js''"
  by code_simp

text \<open>
  C10. A \<^verbatim>\<open>..\<close> segment is neither rejected nor rewritten: the normalisation leaves
  every path that starts with \<^verbatim>\<open>../\<close> as it is. The block with the explicit path
  \<^verbatim>\<open>../x.js\<close> yields the artifact path \<^verbatim>\<open>../x.js\<close>, and \<open>writeFiles\<close> joins it to
  the project folder \<^verbatim>\<open>/work/demo\<close>, so the file is written to \<^verbatim>\<open>/work/x.js\<close>,
  outside the project folder.
\<close>

theorem parent_segment_escapes:
  "stripLeadingSlash (''../'' @ p) = ''../'' @ p \<and>
   parseCodeFiles ''```js:../x.js\<newline>A\<newline>```'' =
     [\<lparr>filePath = ''../x.js'', content = ''A\<newline>''\<rparr>] \<and>
   fst (writeFiles ''/work'' 0 ''demo'' ''```js:../x.js\<newline>A\<newline>```''
          \<lparr>cwd = ''/work'', nodes = [''/work'' \<mapsto> Dir]\<rparr>) =
     Inr \<lparr>folderPath = ''/work/demo'', files = [''../x.js'']\<rparr> \<and>
   nodes (snd (writeFiles ''/work'' 0 ''demo'' ''```js:../x.js\<newline>A\<newline>```''
          \<lparr>cwd = ''/work'', nodes = [''/work'' \<mapsto> Dir]\<rparr>)) ''/work/x.js'' =
     Some (File ''A\<newline>'') \<and>
   \<not> prefix ''/work/demo/'' ''/work/x.js''"
  using stripLeadingSlash_parent [of p] parent_segment_written by (rule conjI)

section \<open>Properties of the run instructions\<close>

text \<open>
  C7 fails as stated: every instruction carries its number, so the list for a folder with
  \<^verbatim>\<open>package.json\<close> is not the list of the bare commands.
\<close>

theorem run_instructions_counterexample:
  "generateRunInstructions ''/'' ''/p'' (Some [\<lparr>name = ''package.json'', isFile = True\<rparr>]) =
     [''1. cd /p'', ''2. npm install'', ''3. npm start''] \<and>
   generateRunInstructions ''/'' ''/p'' (Some [\<lparr>name = ''package.json'', isFile = True\<rparr>]) \<noteq>
     [''cd /p'', ''npm install'', ''npm start'']"
  by code_simp

text \<open>
  C7, amended. The instructions depend only on the names of the regular files listed
  directly in the folder, by the fixed order of priority of the spec (\<^verbatim>\<open>package.json\<close>,
  \<^verbatim>\<open>requirements.txt\<close>, \<^verbatim>\<open>index.html\<close>, \<^verbatim>\<open>main.py\<close>, \<^verbatim>\<open>main.js\<close> before
  \<^verbatim>\<open>index.js\<close>, the first listed \<^verbatim>\<open>*.html\<close> file, the generic line), and every
  string starts with its number: \<^verbatim>\<open>1. \<close>, \<^verbatim>\<open>2. \<close>, \<^verbatim>\<open>3. \<close>. When the folder
  cannot be listed, the answer is the \<^verbatim>\<open>cd\<close> line and a line asking to review the files.
\<close>

theorem run_instructions_priority:
  assumes "fs = map name (filter isFile entries)" and "absPath = path_resolve dir folder"
  shows "generateRunInstructions dir folder (Some entries) =
     (if ''package.json'' \<in> set fs then
        [''1. cd '' @ absPath, ''2. npm install'', ''3. npm start'']
      else if ''requirements.txt'' \<in> set fs then
        [''1. cd '' @ absPath, ''2. pip install -r requirements.txt'', ''3. python main.py'']
      else if ''index.html'' \<in> set fs then [''1. cd '' @ absPath, ''2. open index.html'']
      else if ''main.py'' \<in> set fs then [''1. cd '' @ absPath, ''2. python main.py'']
      else if ''main.js'' \<in> set fs then [''1. cd '' @ absPath, ''2. node main.js'']
      else if ''index.js'' \<in> set fs then [''1. cd '' @ absPath, ''2. node index.js'']
      else
        (case find (suffix ''.html'') fs of
           Some h \<Rightarrow> [''1. cd '' @ absPath, ''2. open '' @ h]
         | None \<Rightarrow>
             [''1. cd '' @ absPath,
              ''2. Check the project files and run the appropriate command'']))
     \<and> generateRunInstructions dir folder None =
       [''1. cd '' @ absPath, ''2. Review the project files to determine how to run'']"
proof -
  have "list_ex (suffix ''.html'') fs \<longleftrightarrow> find (suffix ''.html'') fs \<noteq> None"
    by (auto simp: list_ex_iff find_None_iff)
  then show ?thesis
    unfolding generateRunInstructions_def Let_def assms
    by (auto split: option.splits)
qed

theorem run_instructions_priority_witness:
  "generateRunInstructions ''/'' ''/p''
     (Some [\<lparr>name = ''src'', isFile = False\<rparr>, \<lparr>name = ''a.html'', isFile = True\<rparr>,
            \<lparr>name = ''b.html'', isFile = True\<rparr>]) =
     [''1. cd /p'', ''2. open a.html'']"
proof -
  have h1: "[''a.html'', ''b.html''] =
      map name (filter isFile [\<lparr>name = ''src'', isFile = False\<rparr>,
        \<lparr>name = ''a.html'', isFile = True\<rparr>, \<lparr>name = ''b.html'', isFile = True\<rparr>])"
    by simp
  have h2: "''/p'' = path_resolve ''/'' ''/p''"
    by code_simp
  show ?thesis
    unfolding run_instructions_priority [OF h1 h2, THEN conjunct1]
    by code_simp
qed

end
